theory Spec2Isabelle
  imports Complex_Main "HOL-Library.Sublist" "HOL-Library.Multiset"
begin

section \<open>Parallelism resolver (src/types/parallelism.ts)\<close>

text \<open>
  The five phase identifiers of the TypeScript union \<^verbatim>\<open>PhaseId\<close>.
\<close>

datatype PhaseId = Ingest | Indexing | Search | Answer | Evaluate

text \<open>
  \<^verbatim>\<open>ParallelismConfig\<close>: every entry is a JavaScript number that may be undefined.
  The interface declares \<^verbatim>\<open>default\<close> as required, but \<^verbatim>\<open>resolveParallelism\<close>
  tests it against undefined, so it is optional here as well. Numbers are integers.
\<close>

record ParallelismConfig =
  default_cfg :: "int option"
  ingest_cfg :: "int option"
  indexing_cfg :: "int option"
  search_cfg :: "int option"
  answer_cfg :: "int option"
  evaluate_cfg :: "int option"

text \<open>The property access \<^verbatim>\<open>config[phase]\<close>.\<close>

fun phase_cfg :: "ParallelismConfig \<Rightarrow> PhaseId \<Rightarrow> int option" where
  "phase_cfg c Ingest = ingest_cfg c"
| "phase_cfg c Indexing = indexing_cfg c"
| "phase_cfg c Search = search_cfg c"
| "phase_cfg c Answer = answer_cfg c"
| "phase_cfg c Evaluate = evaluate_cfg c"

definition resolveParallelism ::
  "PhaseId \<Rightarrow> ParallelismConfig option \<Rightarrow> ParallelismConfig option \<Rightarrow> int" where
  "resolveParallelism phase cliConfig providerDefault =
     (if cliConfig \<noteq> None \<and> phase_cfg (the cliConfig) phase \<noteq> None
        then the (phase_cfg (the cliConfig) phase)
      else if (case cliConfig of None \<Rightarrow> None | Some c \<Rightarrow> default_cfg c) \<noteq> None
        then the (default_cfg (the cliConfig))
      else if providerDefault \<noteq> None \<and> phase_cfg (the providerDefault) phase \<noteq> None
        then the (phase_cfg (the providerDefault) phase)
      else if (case providerDefault of None \<Rightarrow> None | Some c \<Rightarrow> default_cfg c) \<noteq> None
        then the (default_cfg (the providerDefault))
      else 1)"

text \<open>A configuration none of whose entries is defined.\<close>

definition no_cfg :: ParallelismConfig where
  "no_cfg = \<lparr>default_cfg = None, ingest_cfg = None, indexing_cfg = None,
             search_cfg = None, answer_cfg = None, evaluate_cfg = None\<rparr>"

text \<open>Every defined entry of a configuration is positive.\<close>

definition cfg_positive :: "ParallelismConfig option \<Rightarrow> bool" where
  "cfg_positive cfg =
     (case cfg of None \<Rightarrow> True
      | Some c \<Rightarrow> list_all (\<lambda>e. case e of None \<Rightarrow> True | Some n \<Rightarrow> 0 < n)
          [default_cfg c, ingest_cfg c, indexing_cfg c, search_cfg c, answer_cfg c, evaluate_cfg c])"

text \<open>The priority chain as the specification words it: the first defined of four lookups, else 1.\<close>

definition first_defined :: "int option list \<Rightarrow> int" where
  "first_defined xs = (case List.map_filter id xs of [] \<Rightarrow> 1 | n # _ \<Rightarrow> n)"

definition priority_chain ::
  "PhaseId \<Rightarrow> ParallelismConfig option \<Rightarrow> ParallelismConfig option \<Rightarrow> int" where
  "priority_chain phase cliConfig providerDefault =
     first_defined
       [Option.bind cliConfig (\<lambda>c. phase_cfg c phase),
        Option.bind cliConfig default_cfg,
        Option.bind providerDefault (\<lambda>c. phase_cfg c phase),
        Option.bind providerDefault default_cfg]"

section \<open>Batch executor (src/orchestrator/parallel.ts)\<close>

subsection \<open>Thrown values\<close>

text \<open>
  A JavaScript \<^verbatim>\<open>throw\<close> carries either an \<^verbatim>\<open>Error\<close> object, kept here by its message,
  or any other value, kept by its \<^verbatim>\<open>String(...)\<close> rendering. A promise that rejects is the
  left injection of a sum.
\<close>

datatype thrown = ErrorObj string | OtherValue string

text \<open>\<^verbatim>\<open>error instanceof Error ? error : new Error(String(error))\<close>\<close>

fun asError :: "thrown \<Rightarrow> thrown" where
  "asError (ErrorObj m) = ErrorObj m"
| "asError (OtherValue s) = ErrorObj s"

text \<open>\<^verbatim>\<open>e instanceof Error ? e.message : String(e)\<close>\<close>

fun errorText :: "thrown \<Rightarrow> string" where
  "errorText (ErrorObj m) = m"
| "errorText (OtherValue s) = s"

subsection \<open>Task contexts, settled tasks, observable events\<close>

text \<open>\<^verbatim>\<open>ParallelTaskContext<T>\<close>; the field \<^verbatim>\<open>total\<close> is named \<open>total_count\<close>.\<close>

record 't ParallelTaskContext =
  item :: 't
  index :: nat
  total_count :: nat

text \<open>
  What the mapped callback of a batch resolves to: \<^verbatim>\<open>{success: true, result, context}\<close> or
  \<^verbatim>\<open>{success: false, error, context}\<close>.
\<close>

datatype ('t, 'r) settled =
    TaskOk 'r "'t ParallelTaskContext"
  | TaskErr thrown "'t ParallelTaskContext"

fun success :: "('t, 'r) settled \<Rightarrow> bool" where
  "success (TaskOk r c) = True"
| "success (TaskErr e c) = False"

fun contextOf :: "('t, 'r) settled \<Rightarrow> 't ParallelTaskContext" where
  "contextOf (TaskOk r c) = c"
| "contextOf (TaskErr e c) = c"

text \<open>
  The executor is observed through the events it causes, in the order it causes them:
  the sampling of the stop signal for a batch (with the value read), the optional observers
  \<^verbatim>\<open>onBatchStart\<close>, \<^verbatim>\<open>onTaskComplete\<close>, \<^verbatim>\<open>onError\<close>, \<^verbatim>\<open>onBatchComplete\<close> (which receive
  exactly these arguments when supplied, and are taken not to throw), the call of
  \<^verbatim>\<open>executeTask\<close> for a context as part of a batch, and the rate-limit delay.
\<close>

datatype ('t, 'r) event =
    StopSampled nat bool
  | OnBatchStart nat nat
  | TaskDispatched nat "'t ParallelTaskContext"
  | OnTaskComplete "'t ParallelTaskContext" 'r
  | OnError "'t ParallelTaskContext" thrown
  | OnBatchComplete nat "'r list"
  | Waited int

text \<open>
  The world \<open>'w\<close> is everything a task can read or change: the checkpoint, the backends, the
  file system and the per-run stop flag. \<^verbatim>\<open>shouldStop\<close> (src/server/runState, not part of
  the sources at hand) reads the flag of a run; \<open>sleep\<close> is what happens to the world
  while the executor awaits the rate-limit timer; \<open>schedule\<close> proposes, for a batch of a
  given size started in a given world, the order in which its tasks settle.
\<close>

record 'w runtime =
  shouldStop :: "string \<Rightarrow> 'w \<Rightarrow> bool"
  sleep :: "int \<Rightarrow> 'w \<Rightarrow> 'w"
  schedule :: "nat \<Rightarrow> nat \<Rightarrow> 'w \<Rightarrow> nat list"

text \<open>
  \<^verbatim>\<open>ParallelExecutionOptions<T, R>\<close> without the four observers, which are events. A task
  takes its context and the world and settles with a result or a thrown value, leaving a
  new world.
\<close>

record ('t, 'r, 'w) ParallelExecutionOptions =
  items :: "'t list"
  concurrency :: int
  rateLimitMs :: int
  runId :: string
  phaseName :: string
  executeTask :: "'t ParallelTaskContext \<Rightarrow> 'w \<Rightarrow> (thrown + 'r) \<times> 'w"

subsection \<open>One batch\<close>

text \<open>\<^verbatim>\<open>items.slice(batchStart, batchEnd)\<close>\<close>

definition slice :: "'a list \<Rightarrow> nat \<Rightarrow> nat \<Rightarrow> 'a list" where
  "slice xs a b = take (b - a) (drop a xs)"

text \<open>
  The contexts built by \<^verbatim>\<open>batch.map((item, batchOffset) => ...)\<close>: the global index is
  \<^verbatim>\<open>batchStart + batchOffset\<close>, the total is \<^verbatim>\<open>items.length\<close>.
\<close>

definition batchContexts :: "'t list \<Rightarrow> nat \<Rightarrow> nat \<Rightarrow> 't ParallelTaskContext list" where
  "batchContexts batch batchStart n =
     map (\<lambda>(it, batchOffset). \<lparr>item = it, index = batchStart + batchOffset, total_count = n\<rparr>)
       (zip batch [0..<length batch])"

text \<open>
  The tasks of a batch run concurrently. Each task is taken to act on the world at one
  point, when it settles, and the tasks of a batch settle in any order of their batch
  offsets: the offsets a schedule names (once, and within the batch) in the order it names
  them, then the offsets it leaves out in input order.
\<close>

definition completionOrder :: "nat list \<Rightarrow> nat \<Rightarrow> nat list" where
  "completionOrder proposed n =
     (let named = remdups (filter (\<lambda>j. j < n) proposed)
      in named @ filter (\<lambda>j. j \<notin> set named) [0..<n])"

text \<open>
  The mapped callbacks in the order in which they settle. Each catches what its task throws
  (reporting it to \<^verbatim>\<open>onError\<close>) and resolves, so whether a task failed has no influence
  on the tasks that settle after it. The outcomes are kept with their batch offsets.
\<close>

fun settleInOrder ::
  "('t ParallelTaskContext \<Rightarrow> 'w \<Rightarrow> (thrown + 'r) \<times> 'w) \<Rightarrow> 't ParallelTaskContext list
   \<Rightarrow> nat list \<Rightarrow> 'w \<Rightarrow> (nat \<times> ('t, 'r) settled) list \<times> ('t, 'r) event list \<times> 'w" where
  "settleInOrder task cs [] w = ([], [], w)"
| "settleInOrder task cs (j # js) w =
     (case task (cs ! j) w of
        (Inr r, w1) \<Rightarrow>
          (case settleInOrder task cs js w1 of (outs, evs, w2) \<Rightarrow>
             ((j, TaskOk r (cs ! j)) # outs, OnTaskComplete (cs ! j) r # evs, w2))
      | (Inl e, w1) \<Rightarrow>
          (case settleInOrder task cs js w1 of (outs, evs, w2) \<Rightarrow>
             ((j, TaskErr (asError e) (cs ! j)) # outs, OnError (cs ! j) (asError e) # evs, w2)))"

text \<open>
  \<^verbatim>\<open>batch.map(async ...)\<close> followed by \<^verbatim>\<open>await Promise.all(batchPromises)\<close>: every task
  of the batch is started, in input order; all of them settle; the array of outcomes is in
  batch-input order, whatever the order in which they settled.
\<close>

definition settleAll ::
  "nat \<Rightarrow> ('t ParallelTaskContext \<Rightarrow> 'w \<Rightarrow> (thrown + 'r) \<times> 'w) \<Rightarrow> 't ParallelTaskContext list
   \<Rightarrow> nat list \<Rightarrow> 'w \<Rightarrow> ('t, 'r) settled list \<times> ('t, 'r) event list \<times> 'w" where
  "settleAll b task cs proposed w =
     (case settleInOrder task cs (completionOrder proposed (length cs)) w of
        (outs, evs, w1) \<Rightarrow>
          (map snd (sort_key fst outs), map (TaskDispatched b) cs @ evs, w1))"

definition stoppedByUser :: thrown where
  "stoppedByUser = ErrorObj ''Run stopped by user. Resume with the same run ID.''"

text \<open>The loop body from \<^verbatim>\<open>const batchStart\<close> to \<^verbatim>\<open>await Promise.all\<close>.\<close>

definition runBatch ::
  "'w runtime \<Rightarrow> ('t, 'r, 'w) ParallelExecutionOptions \<Rightarrow> nat \<Rightarrow> nat \<Rightarrow> 'w
   \<Rightarrow> ('t, 'r) settled list \<times> ('t, 'r) event list \<times> 'w" where
  "runBatch rt opts batchSize batchIdx w =
     (let batchStart = batchIdx * batchSize;
          batchEnd = min (batchStart + batchSize) (length (items opts));
          batch = slice (items opts) batchStart batchEnd
      in case settleAll batchIdx (executeTask opts)
                (batchContexts batch batchStart (length (items opts)))
                (schedule rt batchIdx (length batch) w) w of
           (batchResults, evs, w1) \<Rightarrow>
             (batchResults, OnBatchStart batchIdx (length batch) # evs, w1))"

subsection \<open>The loop over the batches\<close>

text \<open>
  \<^verbatim>\<open>for (let batchIdx = 0; batchIdx < totalBatches; batchIdx++)\<close>, with \<^verbatim>\<open>allResults\<close> as
  accumulator. The result is what the promise settles with, the events in order, and the
  world left behind.
\<close>

function batchLoop ::
  "'w runtime \<Rightarrow> ('t, 'r, 'w) ParallelExecutionOptions \<Rightarrow> nat \<Rightarrow> nat \<Rightarrow> nat \<Rightarrow> 'r list \<Rightarrow> 'w
   \<Rightarrow> (thrown + 'r list) \<times> ('t, 'r) event list \<times> 'w" where
  "batchLoop rt opts batchSize totalBatches batchIdx allResults w =
     (if batchIdx < totalBatches then
        (if shouldStop rt (runId opts) w then
           (Inl stoppedByUser, [StopSampled batchIdx True], w)
         else
           (case runBatch rt opts batchSize batchIdx w of (batchResults, evs, w1) \<Rightarrow>
              (case find (\<lambda>r. \<not> success r) batchResults of
                 Some (TaskErr e c) \<Rightarrow> (Inl e, StopSampled batchIdx False # evs, w1)
               | _ \<Rightarrow>
                  (let successfulResults = [r. TaskOk r c \<leftarrow> batchResults];
                       waits = (int batchIdx < int totalBatches - 1 \<and> rateLimitMs opts > 0);
                       w2 = (if waits then sleep rt (rateLimitMs opts) w1 else w1)
                   in case batchLoop rt opts batchSize totalBatches (Suc batchIdx)
                             (allResults @ successfulResults) w2 of
                        (res, evs2, w3) \<Rightarrow>
                          (res,
                           StopSampled batchIdx False # evs
                             @ OnBatchComplete batchIdx successfulResults
                             # (if waits then [Waited (rateLimitMs opts)] else []) @ evs2,
                           w3)))))
      else (Inr allResults, [], w))"
  by pat_completeness auto

termination
  by (relation "measure (\<lambda>(rt, opts, batchSize, totalBatches, batchIdx, allResults, w).
        totalBatches - batchIdx)") auto

declare batchLoop.simps [simp del]

text \<open>\<^verbatim>\<open>Math.ceil(items.length / batchSize)\<close>\<close>

definition totalBatchesOf :: "nat \<Rightarrow> int \<Rightarrow> nat" where
  "totalBatchesOf n batchSize = nat \<lceil>real n / real_of_int batchSize\<rceil>"

definition executeBatched ::
  "'w runtime \<Rightarrow> ('t, 'r, 'w) ParallelExecutionOptions \<Rightarrow> 'w
   \<Rightarrow> (thrown + 'r list) \<times> ('t, 'r) event list \<times> 'w" where
  "executeBatched rt opts w =
     (if length (items opts) = 0 then (Inr [], [], w)
      else if concurrency opts \<le> 0 then (Inl (ErrorObj ''Concurrency must be positive''), [], w)
      else batchLoop rt opts (nat (concurrency opts))
             (totalBatchesOf (length (items opts)) (concurrency opts)) 0 [] w)"

definition executeParallel ::
  "'w runtime \<Rightarrow> 't list \<Rightarrow> int \<Rightarrow> string \<Rightarrow> string
   \<Rightarrow> ('t ParallelTaskContext \<Rightarrow> 'w \<Rightarrow> (thrown + 'r) \<times> 'w) \<Rightarrow> 'w
   \<Rightarrow> (thrown + 'r list) \<times> ('t, 'r) event list \<times> 'w" where
  "executeParallel rt its conc rid phase task w =
     executeBatched rt
       \<lparr>items = its, concurrency = conc, rateLimitMs = 0, runId = rid, phaseName = phase,
        executeTask = task\<rparr> w"

subsection \<open>Reading a run off its events\<close>

text \<open>The context the executor builds for the item at a global index.\<close>

definition ctxAt :: "'t list \<Rightarrow> nat \<Rightarrow> 't ParallelTaskContext" where
  "ctxAt xs i = \<lparr>item = xs ! i, index = i, total_count = length xs\<rparr>"

text \<open>The tasks dispatched, each with the batch it was dispatched in.\<close>

definition dispatched :: "('t, 'r) event list \<Rightarrow> (nat \<times> 't ParallelTaskContext) list" where
  "dispatched tr = [(b, c). TaskDispatched b c \<leftarrow> tr]"

text \<open>The failed tasks with their errors, the completed tasks with their results.\<close>

definition errors :: "('t, 'r) event list \<Rightarrow> ('t ParallelTaskContext \<times> thrown) list" where
  "errors tr = [(c, e). OnError c e \<leftarrow> tr]"

definition completions :: "('t, 'r) event list \<Rightarrow> ('t ParallelTaskContext \<times> 'r) list" where
  "completions tr = [(c, r). OnTaskComplete c r \<leftarrow> tr]"

text \<open>The tasks that settled, whichever way.\<close>

definition settledTasks :: "('t, 'r) event list \<Rightarrow> 't ParallelTaskContext list" where
  "settledTasks tr =
     concat (map (\<lambda>ev. case ev of OnTaskComplete c r \<Rightarrow> [c] | OnError c e \<Rightarrow> [c] | _ \<Rightarrow> []) tr)"

text \<open>The samples of the stop signal, the batches started with their sizes.\<close>

definition stopSamples :: "('t, 'r) event list \<Rightarrow> (nat \<times> bool) list" where
  "stopSamples tr = [(b, v). StopSampled b v \<leftarrow> tr]"

definition batchStarts :: "('t, 'r) event list \<Rightarrow> (nat \<times> nat) list" where
  "batchStarts tr = [(b, n). OnBatchStart b n \<leftarrow> tr]"

definition batchesRun :: "('t, 'r) event list \<Rightarrow> nat" where
  "batchesRun tr = length (batchStarts tr)"

text \<open>Some sample of the stop signal found it set.\<close>

definition stopSeen :: "('t, 'r) event list \<Rightarrow> bool" where
  "stopSeen tr = (True \<in> set (map snd (stopSamples tr)))"

definition failuresOf :: "('t, 'r) settled list \<Rightarrow> ('t ParallelTaskContext \<times> thrown) list" where
  "failuresOf rs = [(c, e). TaskErr e c \<leftarrow> rs]"

definition successesOf :: "('t, 'r) settled list \<Rightarrow> ('t ParallelTaskContext \<times> 'r) list" where
  "successesOf rs = [(c, r). TaskOk r c \<leftarrow> rs]"

text \<open>
  The order of stop samples and task dispatches alone: a sample for a batch, a dispatch of
  the task with a global index as part of a batch.
\<close>

datatype control = Sample nat bool | Dispatch nat nat

definition controlOf :: "('t, 'r) event list \<Rightarrow> control list" where
  "controlOf tr =
     concat (map (\<lambda>ev. case ev of StopSampled b v \<Rightarrow> [Sample b v]
                          | TaskDispatched b c \<Rightarrow> [Dispatch b (index c)] | _ \<Rightarrow> []) tr)"

text \<open>
  The control sequence of \<open>n\<close> batches from batch \<open>k\<close> on, each sampled once with the
  signal clear and then dispatched in full.
\<close>

definition batchSkeleton :: "nat \<Rightarrow> nat \<Rightarrow> nat \<Rightarrow> nat \<Rightarrow> control list" where
  "batchSkeleton C N k n =
     concat (map (\<lambda>b. Sample b False # map (Dispatch b) [b * C..<min (b * C + C) N]) [k..<k + n])"

text \<open>
  The tasks in flight after some events, given those in flight before: a task is in flight
  from its dispatch until it settles. A run has quiet samples when every sample of the stop
  signal is taken with no task in flight.
\<close>

fun inFlight ::
  "('t, 'r) event list \<Rightarrow> 't ParallelTaskContext list \<Rightarrow> 't ParallelTaskContext list" where
  "inFlight [] running = running"
| "inFlight (TaskDispatched b c # tr) running = inFlight tr (running @ [c])"
| "inFlight (OnTaskComplete c r # tr) running = inFlight tr (remove1 c running)"
| "inFlight (OnError c e # tr) running = inFlight tr (remove1 c running)"
| "inFlight (StopSampled b v # tr) running = inFlight tr running"
| "inFlight (OnBatchStart b n # tr) running = inFlight tr running"
| "inFlight (OnBatchComplete b rs # tr) running = inFlight tr running"
| "inFlight (Waited ms # tr) running = inFlight tr running"


text \<open>
  The world in which the loop body leaves the run after a batch that succeeded, and the
  world after \<open>n\<close> such batches from batch \<open>k\<close> on: all their tasks have settled and the
  delays between them have passed.
\<close>

definition afterBatch ::
  "'w runtime \<Rightarrow> ('t, 'r, 'w) ParallelExecutionOptions \<Rightarrow> nat \<Rightarrow> nat \<Rightarrow> nat \<Rightarrow> 'w \<Rightarrow> 'w" where
  "afterBatch rt opts batchSize totalBatches batchIdx w =
     (case runBatch rt opts batchSize batchIdx w of (batchResults, evs, w1) \<Rightarrow>
        if int batchIdx < int totalBatches - 1 \<and> rateLimitMs opts > 0
        then sleep rt (rateLimitMs opts) w1 else w1)"


subsection \<open>A small run used to exercise the executor\<close>

text \<open>
  The world is the list of items recorded so far. The tasks of the items 30 and 31 throw;
  every other task records its item. Recording item 99 raises the stop signal. The tasks of
  a batch settle last to first.
\<close>

definition demoRuntime :: "nat list runtime" where
  "demoRuntime =
     \<lparr>shouldStop = (\<lambda>r w. 99 \<in> set w), sleep = (\<lambda>ms w. w), schedule = (\<lambda>b n w. rev [0..<n])\<rparr>"

definition demoTask :: "nat ParallelTaskContext \<Rightarrow> nat list \<Rightarrow> (thrown + nat) \<times> nat list" where
  "demoTask c w =
     (if item c = 30 then (Inl (OtherValue ''boom''), w)
      else if item c = 31 then (Inl (ErrorObj ''late''), w)
      else (Inr (item c + index c), w @ [item c]))"

definition demoOptions :: "nat list \<Rightarrow> int \<Rightarrow> (nat, nat, nat list) ParallelExecutionOptions" where
  "demoOptions xs c =
     \<lparr>items = xs, concurrency = c, rateLimitMs = 1000, runId = ''run'', phaseName = ''demo'',
      executeTask = demoTask\<rparr>"

section \<open>Checkpoint data and collaborators\<close>

subsection \<open>Checkpoint data\<close>

datatype PhaseStatus = Pending | InProgress | Completed | Failed

text \<open>\<^verbatim>\<open>IngestResult\<close>: \<^verbatim>\<open>{documentIds: string[], taskIds?: string[]}\<close>\<close>

record IngestResult =
  documentIds :: "string list"
  taskIds :: "string list option"

text \<open>
  The state of one phase of one question: the common fields and the payload fields of all
  five phases, each optional as a property of a JavaScript object is. A retrieved record is
  kept as its text, retrieval metrics as \<open>(k, hitAtK, mrr)\<close>.
\<close>

record PhaseState =
  status :: PhaseStatus
  startedAt :: "string option"
  completedAt :: "string option"
  durationMs :: "int option"
  error :: "string option"
  completedSessions :: "string list"
  ingestResult :: "IngestResult option"
  resultFile :: "string option"
  results :: "string list option"
  hypothesis :: "string option"
  score :: "int option"
  label :: "string option"
  explanation :: "string option"
  retrievalMetrics :: "(nat \<times> bool \<times> rat) option"

text \<open>
  A question's checkpoint. Its identifier field is named \<open>cpQuestionId\<close>, session metadata
  are triples \<open>(sessionId, date, messageCount)\<close>.
\<close>

record QuestionCheckpoint =
  cpQuestionId :: string
  questionDate :: "string option"
  containerTag :: string
  sessions :: "(string \<times> string option \<times> nat) list"
  phases :: "PhaseId \<Rightarrow> PhaseState"

text \<open>
  The checkpoint of a run (its run identifier is named \<open>cpRunId\<close>). The object
  \<^verbatim>\<open>checkpoint.questions\<close> is a list of entries in property order, looked up by key.
\<close>

record RunCheckpoint =
  cpRunId :: string
  dataSourceRunId :: string
  answeringModel :: string
  parallelism :: "ParallelismConfig option"
  questions :: "(string \<times> QuestionCheckpoint) list"

text \<open>
  The world of a phase: the checkpoint in memory, the checkpoint as the store last wrote it,
  and everything outside the process (backends, files, models, clock, stop flag).
\<close>

record 'x world =
  checkpoint :: RunCheckpoint
  persisted :: "RunCheckpoint option"
  ext :: 'x

subsection \<open>Checkpoint store\<close>

text \<open>\<^verbatim>\<open>checkpoint.questions[questionId]\<close>\<close>

definition questionEntry :: "RunCheckpoint \<Rightarrow> string \<Rightarrow> QuestionCheckpoint option" where
  "questionEntry cp qid = map_of (questions cp) qid"

text \<open>
  Modelled from the spec: \<^verbatim>\<open>CheckpointManager.getPhaseStatus\<close> (src/orchestrator/checkpoint
  is not among the sources): the status of a phase of a question, \<open>pending\<close> if absent.
\<close>

definition getPhaseStatus :: "RunCheckpoint \<Rightarrow> string \<Rightarrow> PhaseId \<Rightarrow> PhaseStatus" where
  "getPhaseStatus cp qid phase =
     (case questionEntry cp qid of None \<Rightarrow> Pending | Some q \<Rightarrow> status (phases q phase))"

text \<open>A change to the entry of one question, in memory; other entries and the order stay.\<close>

definition updateQuestion ::
  "string \<Rightarrow> (QuestionCheckpoint \<Rightarrow> QuestionCheckpoint) \<Rightarrow> RunCheckpoint \<Rightarrow> RunCheckpoint" where
  "updateQuestion qid f cp =
     cp\<lparr>questions := map (\<lambda>(key, q). if key = qid then (key, f q) else (key, q)) (questions cp)\<rparr>"

definition mergePhase ::
  "string \<Rightarrow> PhaseId \<Rightarrow> (PhaseState \<Rightarrow> PhaseState) \<Rightarrow> 'x world \<Rightarrow> 'x world" where
  "mergePhase qid phase upd s =
     s\<lparr>checkpoint :=
         updateQuestion qid (\<lambda>q. q\<lparr>phases := (phases q)(phase := upd (phases q phase))\<rparr>)
           (checkpoint s)\<rparr>"

text \<open>The synchronous durable write of the checkpoint.\<close>

definition save :: "'x world \<Rightarrow> 'x world" where
  "save s = s\<lparr>persisted := Some (checkpoint s)\<rparr>"

text \<open>
  Modelled from the spec: \<^verbatim>\<open>CheckpointManager.updatePhase\<close> merges the given fields into the
  existing phase state, leaving the other fields, and persists before it returns. The
  partial fields are a record update; a question without an entry has no state to merge into.
\<close>

definition updatePhase ::
  "string \<Rightarrow> PhaseId \<Rightarrow> (PhaseState \<Rightarrow> PhaseState) \<Rightarrow> 'x world \<Rightarrow> 'x world" where
  "updatePhase qid phase upd s = save (mergePhase qid phase upd s)"

text \<open>
  Modelled from the spec: \<^verbatim>\<open>CheckpointManager.updateSessions\<close> stores the session metadata
  of a question and persists.
\<close>

definition updateSessions ::
  "string \<Rightarrow> (string \<times> string option \<times> nat) list \<Rightarrow> 'x world \<Rightarrow> 'x world" where
  "updateSessions qid metadata s =
     save (s\<lparr>checkpoint := updateQuestion qid (\<lambda>q. q\<lparr>sessions := metadata\<rparr>) (checkpoint s)\<rparr>)"

subsection \<open>Benchmark, provider, judge\<close>

record Question =
  questionId :: string
  question :: string
  questionType :: string
  groundTruth :: string

text \<open>A conversation session: its identifier, \<^verbatim>\<open>metadata?.date\<close>, and its messages.\<close>

record UnifiedSession =
  sessionId :: string
  sessionDate :: "string option"
  messages :: "string list"

record Benchmark =
  getQuestions :: "Question list"
  getHaystackSessions :: "string \<Rightarrow> UnifiedSession list"

text \<open>
  A provider's answer-prompt override is a builder function or a string template
  (\<^verbatim>\<open>ProviderPrompts.answerPrompt\<close>).
\<close>

datatype AnswerPrompt =
    PromptFunction "string \<Rightarrow> string list \<Rightarrow> string option \<Rightarrow> string"
  | PromptTemplate string

record ProviderPrompts =
  answerPrompt :: "AnswerPrompt option"

text \<open>
  The operations of a provider act on the outside world and may throw. The options of
  \<^verbatim>\<open>ingest\<close> are the container tag; those of \<^verbatim>\<open>search\<close> are the container tag, the limit
  and the threshold.
\<close>

record 'x Provider =
  ingest :: "UnifiedSession list \<Rightarrow> string \<Rightarrow> 'x \<Rightarrow> (thrown + IngestResult) \<times> 'x"
  awaitIndexing :: "IngestResult \<Rightarrow> string \<Rightarrow> 'x \<Rightarrow> (thrown + unit) \<times> 'x"
  search :: "string \<Rightarrow> string \<times> nat \<times> rat \<Rightarrow> 'x \<Rightarrow> (thrown + string list) \<times> 'x"
  defaultParallelism :: "ParallelismConfig option"
  prompts :: "ProviderPrompts option"

text \<open>
  The judge is asked with \<open>(question, questionType, groundTruth, hypothesis,
  providerPrompts)\<close>; its verdict is \<open>(score, label, explanation)\<close>.
\<close>

record 'x Judge =
  judgeName :: string
  getModel :: string
  evaluateAnswer ::
    "string \<times> string \<times> string \<times> string option \<times> ProviderPrompts option \<Rightarrow> 'x
     \<Rightarrow> (thrown + int \<times> string \<times> string) \<times> 'x"

subsection \<open>The rest of the environment\<close>

datatype ModelProvider = OpenAI | Anthropic | Google

record ModelConfig =
  modelProvider :: ModelProvider
  modelId :: string
  displayName :: string
  defaultMaxTokens :: int
  supportsTemperature :: bool
  defaultTemperature :: rat

text \<open>The three keys of \<^verbatim>\<open>config\<close> (src/utils/config.ts) that the answer phase reads.\<close>

record Config =
  openaiApiKey :: string
  anthropicApiKey :: string
  googleApiKey :: string

datatype LanguageModel = OpenAIClient string | AnthropicClient string | GoogleClient string

text \<open>The parameters of \<^verbatim>\<open>generateText\<close>: the client and model, the prompt, the limits.\<close>

record GenerateParams =
  model :: "LanguageModel \<times> string"
  prompt :: string
  maxTokens :: int
  temperature :: "rat option"

text \<open>The JSON artifact of the search phase.\<close>

record SearchArtifact =
  artifactQuestionId :: string
  artifactQuestion :: string
  artifactQuestionType :: string
  artifactGroundTruth :: string
  artifactContainerTag :: string
  artifactTimestamp :: string
  artifactDurationMs :: int
  artifactResults :: "string list"

text \<open>
  What the phases use and the sources at hand do not contain: the clock, the file system,
  the results directory of the checkpoint manager, the model table, the text generator, the
  default prompt builder, the context renderer and the retrieval metrics. Writing the
  artifact is \<^verbatim>\<open>writeFileSync(resultFile, JSON.stringify(resultData, null, 2))\<close>; reading it
  is \<^verbatim>\<open>JSON.parse(readFileSync(resultFile, "utf8")).results || []\<close>.
\<close>

record 'x environment =
  nowMs :: "'x \<Rightarrow> int"
  nowIso :: "'x \<Rightarrow> string"
  existsSync :: "string \<Rightarrow> 'x \<Rightarrow> bool"
  mkdirSync :: "string \<Rightarrow> 'x \<Rightarrow> (thrown + unit) \<times> 'x"
  joinPath :: "string \<Rightarrow> string \<Rightarrow> string"
  getResultsDir :: "string \<Rightarrow> string"
  writeArtifact :: "string \<Rightarrow> SearchArtifact \<Rightarrow> 'x \<Rightarrow> (thrown + unit) \<times> 'x"
  readArtifactResults :: "string \<Rightarrow> 'x \<Rightarrow> (thrown + string list) \<times> 'x"
  config :: Config
  defaultAnsweringModel :: string
  getModelConfig :: "string \<Rightarrow> thrown + ModelConfig"
  generateText :: "GenerateParams \<Rightarrow> 'x \<Rightarrow> (thrown + string) \<times> 'x"
  buildDefaultAnswerPrompt :: "string \<Rightarrow> string list \<Rightarrow> string option \<Rightarrow> string"
  buildContextString :: "string list \<Rightarrow> string"
  calculateRetrievalMetrics ::
    "string \<Rightarrow> string \<Rightarrow> string \<Rightarrow> string list \<Rightarrow> 'x \<Rightarrow> (thrown + (nat \<times> bool \<times> rat) option) \<times> 'x"

text \<open>How a phase runner ends: nothing was pending, the phase completed, or it threw.\<close>

datatype phaseOutcome = NothingPending | PhaseComplete | PhaseThrew thrown

fun finishPhase ::
  "(thrown + 'r list) \<times> ('t, 'r) event list \<times> 'w \<Rightarrow> phaseOutcome \<times> ('t, 'r) event list \<times> 'w" where
  "finishPhase (Inr rs, tr, s) = (PhaseComplete, tr, s)"
| "finishPhase (Inl e, tr, s) = (PhaseThrew e, tr, s)"

text \<open>
  \<^verbatim>\<open>questionIds ? questions.filter(q => questionIds.includes(q.questionId)) : questions\<close>
\<close>

definition targetQuestions :: "string list option \<Rightarrow> Question list \<Rightarrow> Question list" where
  "targetQuestions questionIds qs =
     (case questionIds of None \<Rightarrow> qs | Some ids \<Rightarrow> filter (\<lambda>q. questionId q \<in> set ids) qs)"

text \<open>
  The message of the error a failed task is rethrown as, for a phase label, a question
  identifier and the message of the cause.
\<close>

definition failedAt :: "string \<Rightarrow> string \<Rightarrow> string \<Rightarrow> thrown" where
  "failedAt what qid msg =
     ErrorObj (what @ '' failed at '' @ qid @ '': '' @ msg
               @ ''. Fix the issue and resume with the same run ID.'')"

text \<open>
  Reading a property of \<^verbatim>\<open>checkpoint.questions[id]\<close> when the question has no entry throws
  a \<^verbatim>\<open>TypeError\<close>; so does a file read with an undefined path. The message texts are the
  engine's and are abbreviated here.
\<close>

definition undefinedEntry :: thrown where
  "undefinedEntry = ErrorObj ''Cannot read properties of undefined''"

definition undefinedPath :: thrown where
  "undefinedPath = ErrorObj ''The path argument must be of type string. Received undefined''"

section \<open>Phase runners (src/orchestrator/phases)\<close>

subsection \<open>Ingest\<close>

text \<open>\<^verbatim>\<open>`${question.questionId}-${checkpoint.dataSourceRunId}`\<close> in the ingest task.\<close>

definition ingestContainerTag :: "Question \<Rightarrow> RunCheckpoint \<Rightarrow> string" where
  "ingestContainerTag q cp = questionId q @ ''-'' @ dataSourceRunId cp"

text \<open>
  The array \<^verbatim>\<open>completedSessions\<close> of the task is the array inside the checkpoint: reading
  it reads the checkpoint in memory, \<^verbatim>\<open>push\<close> changes the checkpoint in memory.
\<close>

definition liveCompletedSessions :: "string \<Rightarrow> 'x world \<Rightarrow> string list" where
  "liveCompletedSessions qid s =
     (case questionEntry (checkpoint s) qid of None \<Rightarrow> []
      | Some q \<Rightarrow> completedSessions (phases q Ingest))"

text \<open>
  The loop \<^verbatim>\<open>for (const session of sessions)\<close>. The accumulator \<^verbatim>\<open>combinedResult\<close> has
  both of its arrays throughout the loop. A throw of \<^verbatim>\<open>provider.ingest\<close> leaves the loop.
\<close>

fun ingestSessions ::
  "'x Provider \<Rightarrow> string \<Rightarrow> string \<Rightarrow> UnifiedSession list \<Rightarrow> string list \<times> string list \<Rightarrow> 'x world
   \<Rightarrow> (thrown + string list \<times> string list) \<times> 'x world" where
  "ingestSessions provider tag qid [] combinedResult s = (Inr combinedResult, s)"
| "ingestSessions provider tag qid (session # rest) combinedResult s =
     (if sessionId session \<in> set (liveCompletedSessions qid s)
      then ingestSessions provider tag qid rest combinedResult s
      else
        (case ingest provider [session] tag (ext s) of
           (Inl e, x) \<Rightarrow> (Inl e, s\<lparr>ext := x\<rparr>)
         | (Inr result, x) \<Rightarrow>
             (let combined1 =
                    (fst combinedResult @ documentIds result,
                     (case taskIds result of
                        None \<Rightarrow> snd combinedResult
                      | Some ts \<Rightarrow> snd combinedResult @ ts));
                  s1 = mergePhase qid Ingest
                         (\<lambda>p. p\<lparr>completedSessions := completedSessions p @ [sessionId session]\<rparr>)
                         (s\<lparr>ext := x\<rparr>);
                  s2 = updatePhase qid Ingest
                         (\<lambda>p. p\<lparr>completedSessions := liveCompletedSessions qid s1\<rparr>) s1
              in ingestSessions provider tag qid rest combined1 s2)))"

text \<open>The merge of the new result with the result already stored, if there is one.\<close>

definition mergeIngestResult :: "IngestResult option \<Rightarrow> IngestResult \<Rightarrow> IngestResult" where
  "mergeIngestResult existingResult combinedResult =
     (case existingResult of
        None \<Rightarrow> combinedResult
      | Some existing \<Rightarrow>
          (let merged = combinedResult\<lparr>documentIds :=
                          documentIds existing @ documentIds combinedResult\<rparr>
           in if taskIds existing \<noteq> None \<or> taskIds combinedResult \<noteq> None
              then merged\<lparr>taskIds :=
                     Some ((case taskIds existing of None \<Rightarrow> [] | Some ts \<Rightarrow> ts)
                           @ (case taskIds combinedResult of None \<Rightarrow> [] | Some ts \<Rightarrow> ts))\<rparr>
              else merged))"

text \<open>The body of the \<^verbatim>\<open>try\<close> block of the ingest task.\<close>

definition ingestAttempt ::
  "'x environment \<Rightarrow> 'x Provider \<Rightarrow> Question \<Rightarrow> UnifiedSession list \<Rightarrow> int \<Rightarrow> 'x world
   \<Rightarrow> (thrown + string \<times> int) \<times> 'x world" where
  "ingestAttempt env provider q sessionList startTime s =
     (case questionEntry (checkpoint s) (questionId q) of
        None \<Rightarrow> (Inl undefinedEntry, s)
      | Some entry \<Rightarrow>
          (case ingestSessions provider (ingestContainerTag q (checkpoint s)) (questionId q)
                  sessionList ([], []) s of
             (Inl e, s1) \<Rightarrow> (Inl e, s1)
           | (Inr combined, s1) \<Rightarrow>
               (let combined1 = \<lparr>documentIds = fst combined,
                                 taskIds = (if length (snd combined) = 0 then None
                                            else Some (snd combined))\<rparr>;
                    existingResult =
                      (case questionEntry (checkpoint s1) (questionId q) of
                         None \<Rightarrow> None | Some e1 \<Rightarrow> ingestResult (phases e1 Ingest));
                    combined2 = mergeIngestResult existingResult combined1;
                    duration = nowMs env (ext s1) - startTime;
                    s2 = updatePhase (questionId q) Ingest
                           (\<lambda>p. p\<lparr>status := Completed, ingestResult := Some combined2,
                                  completedAt := Some (nowIso env (ext s1)),
                                  durationMs := Some duration\<rparr>) s1
                in (Inr (questionId q, duration), s2))))"

text \<open>The task of the ingest phase: what precedes the \<^verbatim>\<open>try\<close>, the attempt, the \<^verbatim>\<open>catch\<close>.\<close>

definition ingestTask ::
  "'x environment \<Rightarrow> 'x Provider \<Rightarrow> Benchmark \<Rightarrow> Question ParallelTaskContext \<Rightarrow> 'x world
   \<Rightarrow> (thrown + string \<times> int) \<times> 'x world" where
  "ingestTask env provider benchmark ctx s =
     (let q = item ctx;
          sessionList = getHaystackSessions benchmark (questionId q);
          sessionsMetadata =
            map (\<lambda>se. (sessionId se, sessionDate se, length (messages se))) sessionList;
          s1 = updateSessions (questionId q) sessionsMetadata s;
          startTime = nowMs env (ext s1);
          s2 = updatePhase (questionId q) Ingest
                 (\<lambda>p. p\<lparr>status := InProgress, startedAt := Some (nowIso env (ext s1))\<rparr>) s1
      in case ingestAttempt env provider q sessionList startTime s2 of
           (Inr r, s3) \<Rightarrow> (Inr r, s3)
         | (Inl e, s3) \<Rightarrow>
             (Inl (failedAt ''Ingest'' (questionId q) (errorText e)),
              updatePhase (questionId q) Ingest
                (\<lambda>p. p\<lparr>status := Failed, error := Some (errorText e)\<rparr>) s3))"

text \<open>The working set of the ingest phase.\<close>

definition ingestPending :: "Benchmark \<Rightarrow> string list option \<Rightarrow> RunCheckpoint \<Rightarrow> Question list" where
  "ingestPending benchmark questionIds cp =
     filter (\<lambda>q. getPhaseStatus cp (questionId q) Ingest \<noteq> Completed)
       (targetQuestions questionIds (getQuestions benchmark))"

definition RATE_LIMIT_MS :: int where
  "RATE_LIMIT_MS = 1000"

definition runIngestPhase ::
  "'x world runtime \<Rightarrow> 'x environment \<Rightarrow> 'x Provider \<Rightarrow> Benchmark \<Rightarrow> string list option \<Rightarrow> 'x world
   \<Rightarrow> phaseOutcome \<times> (Question, string \<times> int) event list \<times> 'x world" where
  "runIngestPhase rt env provider benchmark questionIds s =
     (let pendingQuestions = ingestPending benchmark questionIds (checkpoint s)
      in if length pendingQuestions = 0 then (NothingPending, [], s)
         else finishPhase
           (executeBatched rt
              \<lparr>items = pendingQuestions,
               concurrency = resolveParallelism Ingest (parallelism (checkpoint s))
                               (defaultParallelism provider),
               rateLimitMs = RATE_LIMIT_MS,
               runId = cpRunId (checkpoint s),
               phaseName = ''ingest'',
               executeTask = ingestTask env provider benchmark\<rparr> s))"

subsection \<open>Indexing\<close>

text \<open>
  The items of the indexing phase are the entries of the checkpoint as they are when the
  phase starts; the fields the task reads from its item are not changed by this phase.
\<close>

text \<open>
  \<^verbatim>\<open>questionIds ? allQuestions.filter(q => questionIds.includes(q.questionId)) : allQuestions\<close>
  with \<^verbatim>\<open>allQuestions = Object.values(checkpoint.questions)\<close>.
\<close>

definition indexingTargets :: "string list option \<Rightarrow> RunCheckpoint \<Rightarrow> QuestionCheckpoint list" where
  "indexingTargets questionIds cp =
     (case questionIds of
        None \<Rightarrow> map snd (questions cp)
      | Some ids \<Rightarrow> filter (\<lambda>q. cpQuestionId q \<in> set ids) (map snd (questions cp)))"

definition indexingPending :: "string list option \<Rightarrow> RunCheckpoint \<Rightarrow> QuestionCheckpoint list" where
  "indexingPending questionIds cp =
     filter (\<lambda>q. status (phases q Ingest) = Completed \<and> status (phases q Indexing) \<noteq> Completed)
       (indexingTargets questionIds cp)"

text \<open>
  \<^verbatim>\<open>!ingestResult || (ingestResult.documentIds.length === 0 && !ingestResult.taskIds?.length)\<close>
\<close>

definition nothingToIndex :: "IngestResult option \<Rightarrow> bool" where
  "nothingToIndex r =
     (case r of None \<Rightarrow> True
      | Some ir \<Rightarrow> length (documentIds ir) = 0
                    \<and> (case taskIds ir of None \<Rightarrow> True | Some ts \<Rightarrow> length ts = 0))"

definition indexingTask ::
  "'x environment \<Rightarrow> 'x Provider \<Rightarrow> QuestionCheckpoint ParallelTaskContext \<Rightarrow> 'x world
   \<Rightarrow> (thrown + string \<times> int) \<times> 'x world" where
  "indexingTask env provider ctx s =
     (let q = item ctx;
          qid = cpQuestionId q
      in if nothingToIndex (ingestResult (phases q Ingest))
         then (Inr (qid, 0),
               updatePhase qid Indexing
                 (\<lambda>p. p\<lparr>status := Completed, completedAt := Some (nowIso env (ext s)),
                        durationMs := Some 0\<rparr>) s)
         else
           (let startTime = nowMs env (ext s);
                s1 = updatePhase qid Indexing
                       (\<lambda>p. p\<lparr>status := InProgress, startedAt := Some (nowIso env (ext s))\<rparr>) s
            in case awaitIndexing provider (the (ingestResult (phases q Ingest)))
                      (containerTag q) (ext s1) of
                 (Inr u, x) \<Rightarrow>
                   (let duration = nowMs env x - startTime
                    in (Inr (qid, duration),
                        updatePhase qid Indexing
                          (\<lambda>p. p\<lparr>status := Completed, completedAt := Some (nowIso env x),
                                 durationMs := Some duration\<rparr>) (s1\<lparr>ext := x\<rparr>)))
               | (Inl e, x) \<Rightarrow>
                   (Inl (failedAt ''Indexing'' qid (errorText e)),
                    updatePhase qid Indexing
                      (\<lambda>p. p\<lparr>status := Failed, error := Some (errorText e)\<rparr>) (s1\<lparr>ext := x\<rparr>))))"

definition runIndexingPhase ::
  "'x world runtime \<Rightarrow> 'x environment \<Rightarrow> 'x Provider \<Rightarrow> string list option \<Rightarrow> 'x world
   \<Rightarrow> phaseOutcome \<times> (QuestionCheckpoint, string \<times> int) event list \<times> 'x world" where
  "runIndexingPhase rt env provider questionIds s =
     (let toIndex = indexingPending questionIds (checkpoint s)
      in if length toIndex = 0 then (NothingPending, [], s)
         else finishPhase
           (executeParallel rt toIndex
              (resolveParallelism Indexing (parallelism (checkpoint s)) (defaultParallelism provider))
              (cpRunId (checkpoint s)) ''indexing'' (indexingTask env provider) s))"

subsection \<open>Search\<close>

text \<open>\<^verbatim>\<open>`${question.questionId}-${checkpoint.dataSourceRunId}`\<close> in the search task.\<close>

definition searchContainerTag :: "Question \<Rightarrow> RunCheckpoint \<Rightarrow> string" where
  "searchContainerTag q cp = questionId q @ ''-'' @ dataSourceRunId cp"

definition searchPending :: "Benchmark \<Rightarrow> string list option \<Rightarrow> RunCheckpoint \<Rightarrow> Question list" where
  "searchPending benchmark questionIds cp =
     filter (\<lambda>q. getPhaseStatus cp (questionId q) Search \<noteq> Completed
                 \<and> getPhaseStatus cp (questionId q) Indexing = Completed)
       (targetQuestions questionIds (getQuestions benchmark))"

text \<open>The body of the \<^verbatim>\<open>try\<close> block of the search task.\<close>

definition searchAttempt ::
  "'x environment \<Rightarrow> 'x Provider \<Rightarrow> string \<Rightarrow> Question \<Rightarrow> string \<Rightarrow> int \<Rightarrow> 'x world
   \<Rightarrow> (thrown + string \<times> int) \<times> 'x world" where
  "searchAttempt env provider resultsDir q tag startTime s =
     (case search provider (question q) (tag, 10, 3 / 10) (ext s) of
        (Inl e, x) \<Rightarrow> (Inl e, s\<lparr>ext := x\<rparr>)
      | (Inr found, x) \<Rightarrow>
          (let duration = nowMs env x - startTime;
               file = joinPath env resultsDir (questionId q @ ''.json'');
               resultData = \<lparr>artifactQuestionId = questionId q, artifactQuestion = question q,
                   artifactQuestionType = questionType q, artifactGroundTruth = groundTruth q,
                   artifactContainerTag = tag, artifactTimestamp = nowIso env x,
                   artifactDurationMs = duration, artifactResults = found\<rparr>
           in case writeArtifact env file resultData x of
                (Inl e, x1) \<Rightarrow> (Inl e, s\<lparr>ext := x1\<rparr>)
              | (Inr u, x1) \<Rightarrow>
                  (Inr (questionId q, duration),
                   updatePhase (questionId q) Search
                     (\<lambda>p. p\<lparr>status := Completed, resultFile := Some file, results := Some found,
                            completedAt := Some (nowIso env x1), durationMs := Some duration\<rparr>)
                     (s\<lparr>ext := x1\<rparr>))))"

definition searchTask ::
  "'x environment \<Rightarrow> 'x Provider \<Rightarrow> string \<Rightarrow> Question ParallelTaskContext \<Rightarrow> 'x world
   \<Rightarrow> (thrown + string \<times> int) \<times> 'x world" where
  "searchTask env provider resultsDir ctx s =
     (let q = item ctx;
          tag = searchContainerTag q (checkpoint s);
          startTime = nowMs env (ext s);
          s1 = updatePhase (questionId q) Search
                 (\<lambda>p. p\<lparr>status := InProgress, startedAt := Some (nowIso env (ext s))\<rparr>) s
      in case searchAttempt env provider resultsDir q tag startTime s1 of
           (Inr r, s2) \<Rightarrow> (Inr r, s2)
         | (Inl e, s2) \<Rightarrow>
             (Inl (failedAt ''Search'' (questionId q) (errorText e)),
              updatePhase (questionId q) Search
                (\<lambda>p. p\<lparr>status := Failed, error := Some (errorText e)\<rparr>) s2))"

definition runSearchPhase ::
  "'x world runtime \<Rightarrow> 'x environment \<Rightarrow> 'x Provider \<Rightarrow> Benchmark \<Rightarrow> string list option \<Rightarrow> 'x world
   \<Rightarrow> phaseOutcome \<times> (Question, string \<times> int) event list \<times> 'x world" where
  "runSearchPhase rt env provider benchmark questionIds s =
     (let pendingQuestions = searchPending benchmark questionIds (checkpoint s)
      in if length pendingQuestions = 0 then (NothingPending, [], s)
         else
           (let resultsDir = getResultsDir env (cpRunId (checkpoint s))
            in case (if \<not> existsSync env resultsDir (ext s) then mkdirSync env resultsDir (ext s)
                     else (Inr (), ext s)) of
                 (Inl e, x) \<Rightarrow> (PhaseThrew e, [], s\<lparr>ext := x\<rparr>)
               | (Inr u, x) \<Rightarrow>
                   finishPhase
                     (executeParallel rt pendingQuestions
                        (resolveParallelism Search (parallelism (checkpoint s))
                           (defaultParallelism provider))
                        (cpRunId (checkpoint s)) ''search''
                        (searchTask env provider resultsDir) (s\<lparr>ext := x\<rparr>))))"

subsection \<open>Answer\<close>

text \<open>
  \<^verbatim>\<open>String.prototype.indexOf\<close>: the position of the first occurrence of a pattern.
\<close>

fun indexOf :: "string \<Rightarrow> string \<Rightarrow> nat option" where
  "indexOf pat [] = (if pat = [] then Some 0 else None)"
| "indexOf pat (c # s) =
     (if prefix pat (c # s) then Some 0 else map_option Suc (indexOf pat s))"

text \<open>
  The expansion of a replacement string (GetSubstitution of the language definition) when
  the pattern is a string, so that there are no captures: \<^verbatim>\<open>$$\<close> is a dollar sign, \<^verbatim>\<open>$&\<close>
  the matched text, \<^verbatim>\<open>$`\<close> the text before the match, \<^verbatim>\<open>$'\<close> the text after it; any other
  character, a dollar sign included, stands for itself.
\<close>

fun getSubstitution :: "string \<Rightarrow> string \<Rightarrow> string \<Rightarrow> string \<Rightarrow> string" where
  "getSubstitution matched preceding following [] = []"
| "getSubstitution matched preceding following [c] = [c]"
| "getSubstitution matched preceding following (c # d # rest) =
     (if c = CHR ''$'' then
        (if d = CHR ''$'' then CHR ''$'' # getSubstitution matched preceding following rest
         else if d = CHR ''&'' then matched @ getSubstitution matched preceding following rest
         else if d = CHR 0x60 then preceding @ getSubstitution matched preceding following rest
         else if d = CHR 0x27 then following @ getSubstitution matched preceding following rest
         else c # getSubstitution matched preceding following (d # rest))
      else c # getSubstitution matched preceding following (d # rest))"

text \<open>\<^verbatim>\<open>str.replace(pattern, replacement)\<close> with a string pattern.\<close>

definition replace :: "string \<Rightarrow> string \<Rightarrow> string \<Rightarrow> string" where
  "replace str pat replacement =
     (case indexOf pat str of
        None \<Rightarrow> str
      | Some i \<Rightarrow>
          take i str
            @ getSubstitution pat (take i str) (drop (i + length pat) str) replacement
            @ drop (i + length pat) str)"

text \<open>
  \<^verbatim>\<open>buildAnswerPrompt\<close>. The guard \<^verbatim>\<open>provider?.prompts?.answerPrompt\<close> holds for a function
  and for a non-empty string; \<^verbatim>\<open>questionDate || "Not specified"\<close> takes the default for an
  absent and for an empty date.
\<close>

definition customAnswerPrompt :: "'x Provider option \<Rightarrow> AnswerPrompt option" where
  "customAnswerPrompt provider =
     (case provider of None \<Rightarrow> None
      | Some p \<Rightarrow>
          (case prompts p of None \<Rightarrow> None
           | Some pp \<Rightarrow>
               (case answerPrompt pp of
                  None \<Rightarrow> None
                | Some (PromptFunction f) \<Rightarrow> Some (PromptFunction f)
                | Some (PromptTemplate t) \<Rightarrow> (if t = [] then None else Some (PromptTemplate t)))))"

definition dateOrDefault :: "string option \<Rightarrow> string" where
  "dateOrDefault qDate =
     (case qDate of None \<Rightarrow> ''Not specified''
      | Some d \<Rightarrow> (if d = [] then ''Not specified'' else d))"

definition buildAnswerPrompt ::
  "'x environment \<Rightarrow> string \<Rightarrow> string list \<Rightarrow> string option \<Rightarrow> 'x Provider option \<Rightarrow> string" where
  "buildAnswerPrompt env q context qDate provider =
     (case customAnswerPrompt provider of
        Some (PromptFunction customPrompt) \<Rightarrow> customPrompt q context qDate
      | Some (PromptTemplate customPrompt) \<Rightarrow>
          (let contextStr = buildContextString env context
           in replace
                (replace
                   (replace customPrompt ''{{question}}'' q)
                   ''{{questionDate}}'' (dateOrDefault qDate))
                ''{{context}}'' contextStr)
      | None \<Rightarrow> buildDefaultAnswerPrompt env q context qDate)"

text \<open>\<^verbatim>\<open>getAnsweringModel\<close>: the model configuration of an alias and the client of its provider.\<close>

definition getAnsweringModel ::
  "'x environment \<Rightarrow> string \<Rightarrow> thrown + LanguageModel \<times> ModelConfig" where
  "getAnsweringModel env modelAlias =
     (case getModelConfig env (if modelAlias = [] then defaultAnsweringModel env else modelAlias) of
        Inl e \<Rightarrow> Inl e
      | Inr modelConfig \<Rightarrow>
          (case modelProvider modelConfig of
             OpenAI \<Rightarrow> Inr (OpenAIClient (openaiApiKey (config env)), modelConfig)
           | Anthropic \<Rightarrow> Inr (AnthropicClient (anthropicApiKey (config env)), modelConfig)
           | Google \<Rightarrow> Inr (GoogleClient (googleApiKey (config env)), modelConfig)))"

text \<open>\<^verbatim>\<open>text.trim()\<close> on the white space of ASCII.\<close>

definition isWhiteSpace :: "char \<Rightarrow> bool" where
  "isWhiteSpace c = (c \<in> set [CHR 0x09, CHR 0x0A, CHR 0x0B, CHR 0x0C, CHR 0x0D, CHR 0x20])"

definition trim :: "string \<Rightarrow> string" where
  "trim str = rev (dropWhile isWhiteSpace (rev (dropWhile isWhiteSpace str)))"

text \<open>
  The working set of the answer phase. \<^verbatim>\<open>resultFile && existsSync(resultFile)\<close> holds when a
  non-empty path is recorded and the file is there.
\<close>

definition artifactPresent :: "'x environment \<Rightarrow> 'x world \<Rightarrow> string \<Rightarrow> bool" where
  "artifactPresent env s qid =
     (case questionEntry (checkpoint s) qid of None \<Rightarrow> False
      | Some entry \<Rightarrow>
          (case resultFile (phases entry Search) of None \<Rightarrow> False
           | Some file \<Rightarrow> file \<noteq> [] \<and> existsSync env file (ext s)))"

definition answerPending ::
  "'x environment \<Rightarrow> Benchmark \<Rightarrow> string list option \<Rightarrow> 'x world \<Rightarrow> Question list" where
  "answerPending env benchmark questionIds s =
     filter (\<lambda>q. getPhaseStatus (checkpoint s) (questionId q) Answer \<noteq> Completed
                 \<and> getPhaseStatus (checkpoint s) (questionId q) Search = Completed
                 \<and> artifactPresent env s (questionId q))
       (targetQuestions questionIds (getQuestions benchmark))"

text \<open>The body of the \<^verbatim>\<open>try\<close> block of the answer task.\<close>

definition answerAttempt ::
  "'x environment \<Rightarrow> 'x Provider option \<Rightarrow> LanguageModel \<times> ModelConfig \<Rightarrow> Question
   \<Rightarrow> string option \<Rightarrow> int \<Rightarrow> 'x world \<Rightarrow> (thrown + string \<times> int) \<times> 'x world" where
  "answerAttempt env provider answering q file startTime s =
     (case (case file of None \<Rightarrow> (Inl undefinedPath, ext s)
            | Some f \<Rightarrow> readArtifactResults env f (ext s)) of
        (Inl e, x) \<Rightarrow> (Inl e, s\<lparr>ext := x\<rparr>)
      | (Inr context, x) \<Rightarrow>
          (let questionDate1 =
                 (case questionEntry (checkpoint s) (questionId q) of
                    None \<Rightarrow> None | Some entry \<Rightarrow> questionDate entry);
               params = \<lparr>model = (fst answering, modelId (snd answering)),
                         prompt = buildAnswerPrompt env (question q) context questionDate1 provider,
                         maxTokens = defaultMaxTokens (snd answering),
                         temperature = (if supportsTemperature (snd answering)
                                        then Some (defaultTemperature (snd answering)) else None)\<rparr>
           in case generateText env params x of
                (Inl e, x1) \<Rightarrow> (Inl e, s\<lparr>ext := x1\<rparr>)
              | (Inr generated, x1) \<Rightarrow>
                  (let duration = nowMs env x1 - startTime
                   in (Inr (questionId q, duration),
                       updatePhase (questionId q) Answer
                         (\<lambda>p. p\<lparr>status := Completed, hypothesis := Some (trim generated),
                                completedAt := Some (nowIso env x1),
                                durationMs := Some duration\<rparr>)
                         (s\<lparr>ext := x1\<rparr>)))))"

definition answerTask ::
  "'x environment \<Rightarrow> 'x Provider option \<Rightarrow> LanguageModel \<times> ModelConfig
   \<Rightarrow> Question ParallelTaskContext \<Rightarrow> 'x world \<Rightarrow> (thrown + string \<times> int) \<times> 'x world" where
  "answerTask env provider answering ctx s =
     (let q = item ctx
      in case questionEntry (checkpoint s) (questionId q) of
           None \<Rightarrow> (Inl undefinedEntry, s)
         | Some entry \<Rightarrow>
             (let file = resultFile (phases entry Search);
                  startTime = nowMs env (ext s);
                  s1 = updatePhase (questionId q) Answer
                         (\<lambda>p. p\<lparr>status := InProgress, startedAt := Some (nowIso env (ext s))\<rparr>) s
              in case answerAttempt env provider answering q file startTime s1 of
                   (Inr r, s2) \<Rightarrow> (Inr r, s2)
                 | (Inl e, s2) \<Rightarrow>
                     (Inl (failedAt ''Answer'' (questionId q) (errorText e)),
                      updatePhase (questionId q) Answer
                        (\<lambda>p. p\<lparr>status := Failed, error := Some (errorText e)\<rparr>) s2)))"

definition runAnswerPhase ::
  "'x world runtime \<Rightarrow> 'x environment \<Rightarrow> Benchmark \<Rightarrow> string list option \<Rightarrow> 'x Provider option
   \<Rightarrow> 'x world \<Rightarrow> phaseOutcome \<times> (Question, string \<times> int) event list \<times> 'x world" where
  "runAnswerPhase rt env benchmark questionIds provider s =
     (let pendingQuestions = answerPending env benchmark questionIds s
      in if length pendingQuestions = 0 then (NothingPending, [], s)
         else
           (case getAnsweringModel env (answeringModel (checkpoint s)) of
              Inl e \<Rightarrow> (PhaseThrew e, [], s)
            | Inr answering \<Rightarrow>
                finishPhase
                  (executeParallel rt pendingQuestions
                     (resolveParallelism Answer (parallelism (checkpoint s))
                        (case provider of None \<Rightarrow> None | Some p \<Rightarrow> defaultParallelism p))
                     (cpRunId (checkpoint s)) ''answer''
                     (answerTask env provider answering) s)))"

subsection \<open>Evaluate\<close>

text \<open>The truth value of the stored hypothesis: it is there and not empty.\<close>

definition hypothesisPresent :: "RunCheckpoint \<Rightarrow> string \<Rightarrow> bool" where
  "hypothesisPresent cp qid =
     (case questionEntry cp qid of None \<Rightarrow> False
      | Some entry \<Rightarrow>
          (case hypothesis (phases entry Answer) of None \<Rightarrow> False | Some h \<Rightarrow> h \<noteq> []))"

definition evaluatePending :: "Benchmark \<Rightarrow> string list option \<Rightarrow> RunCheckpoint \<Rightarrow> Question list" where
  "evaluatePending benchmark questionIds cp =
     filter (\<lambda>q. getPhaseStatus cp (questionId q) Evaluate \<noteq> Completed
                 \<and> getPhaseStatus cp (questionId q) Answer = Completed
                 \<and> hypothesisPresent cp (questionId q))
       (targetQuestions questionIds (getQuestions benchmark))"

text \<open>
  The body of the \<^verbatim>\<open>try\<close> block of the evaluate task. Both operations of \<^verbatim>\<open>Promise.all\<close>
  are started, the judge first; the first of them that failed gives the error.
\<close>

definition evaluateAttempt ::
  "'x environment \<Rightarrow> 'x Judge \<Rightarrow> 'x Provider option \<Rightarrow> Question \<Rightarrow> string option \<Rightarrow> int \<Rightarrow> 'x world
   \<Rightarrow> (thrown + string \<times> int \<times> string) \<times> 'x world" where
  "evaluateAttempt env judge provider q hyp startTime s =
     (case questionEntry (checkpoint s) (questionId q) of
        None \<Rightarrow> (Inl undefinedEntry, s)
      | Some entry \<Rightarrow>
          (let searchResults = (case results (phases entry Search) of None \<Rightarrow> [] | Some rs \<Rightarrow> rs)
           in case evaluateAnswer judge
                     (question q, questionType q, groundTruth q, hyp,
                      (case provider of None \<Rightarrow> None | Some p \<Rightarrow> prompts p)) (ext s) of
                (verdict, x) \<Rightarrow>
                  (case calculateRetrievalMetrics env (getModel judge) (question q) (groundTruth q)
                          searchResults x of
                     (metrics, x1) \<Rightarrow>
                       (case verdict of
                          Inl e \<Rightarrow> (Inl e, s\<lparr>ext := x1\<rparr>)
                        | Inr (sc, lb, ex) \<Rightarrow>
                            (case metrics of
                               Inl e \<Rightarrow> (Inl e, s\<lparr>ext := x1\<rparr>)
                             | Inr rm \<Rightarrow>
                                 (let duration = nowMs env x1 - startTime
                                  in (Inr (questionId q, duration, lb),
                                      updatePhase (questionId q) Evaluate
                                        (\<lambda>p. p\<lparr>status := Completed, score := Some sc,
                                               label := Some lb, explanation := Some ex,
                                               retrievalMetrics := rm,
                                               completedAt := Some (nowIso env x1),
                                               durationMs := Some duration\<rparr>)
                                        (s\<lparr>ext := x1\<rparr>))))))))"

definition evaluateTask ::
  "'x environment \<Rightarrow> 'x Judge \<Rightarrow> 'x Provider option \<Rightarrow> Question ParallelTaskContext \<Rightarrow> 'x world
   \<Rightarrow> (thrown + string \<times> int \<times> string) \<times> 'x world" where
  "evaluateTask env judge provider ctx s =
     (let q = item ctx
      in case questionEntry (checkpoint s) (questionId q) of
           None \<Rightarrow> (Inl undefinedEntry, s)
         | Some entry \<Rightarrow>
             (let hyp = hypothesis (phases entry Answer);
                  startTime = nowMs env (ext s);
                  s1 = updatePhase (questionId q) Evaluate
                         (\<lambda>p. p\<lparr>status := InProgress, startedAt := Some (nowIso env (ext s))\<rparr>) s
              in case evaluateAttempt env judge provider q hyp startTime s1 of
                   (Inr r, s2) \<Rightarrow> (Inr r, s2)
                 | (Inl e, s2) \<Rightarrow>
                     (Inl (failedAt ''Evaluate'' (questionId q) (errorText e)),
                      updatePhase (questionId q) Evaluate
                        (\<lambda>p. p\<lparr>status := Failed, error := Some (errorText e)\<rparr>) s2)))"

definition runEvaluatePhase ::
  "'x world runtime \<Rightarrow> 'x environment \<Rightarrow> 'x Judge \<Rightarrow> Benchmark \<Rightarrow> string list option
   \<Rightarrow> 'x Provider option \<Rightarrow> 'x world
   \<Rightarrow> phaseOutcome \<times> (Question, string \<times> int \<times> string) event list \<times> 'x world" where
  "runEvaluatePhase rt env judge benchmark questionIds provider s =
     (let pendingQuestions = evaluatePending benchmark questionIds (checkpoint s)
      in if length pendingQuestions = 0 then (NothingPending, [], s)
         else finishPhase
           (executeParallel rt pendingQuestions
              (resolveParallelism Evaluate (parallelism (checkpoint s))
                 (case provider of None \<Rightarrow> None | Some p \<Rightarrow> defaultParallelism p))
              (cpRunId (checkpoint s)) ''evaluate''
              (evaluateTask env judge provider) s))"

section \<open>Notions used to state the properties of the phases\<close>

text \<open>The question has an entry in the checkpoint in memory.\<close>

definition hasEntry :: "'x world \<Rightarrow> string \<Rightarrow> bool" where
  "hasEntry s qid = (questionEntry (checkpoint s) qid \<noteq> None)"



text \<open>
  In the words of the claim: \<open>out\<close> is \<open>str\<close> with the first occurrence of \<open>pat\<close>, and only
  that one, replaced by \<open>ins\<close>; a string without an occurrence is left as it is.
\<close>

definition replacesFirstOccurrenceOnly :: "string \<Rightarrow> string \<Rightarrow> string \<Rightarrow> string \<Rightarrow> bool" where
  "replacesFirstOccurrenceOnly pat ins str out =
     (if sublist pat str
      then (\<exists>pre post. str = pre @ pat @ post \<and> \<not> sublist pat (pre @ butlast pat)
                         \<and> out = pre @ ins @ post)
      else out = str)"


text \<open>The number of positions at which a pattern occurs in a string.\<close>

fun occurrences :: "string \<Rightarrow> string \<Rightarrow> nat" where
  "occurrences pat [] = (if pat = [] then 1 else 0)"
| "occurrences pat (c # s) = (if prefix pat (c # s) then 1 else 0) + occurrences pat s"

text \<open>
  Two patterns are apart when no occurrence of one can overlap an occurrence of the other:
  no non-empty end of one is comparable, as a prefix, with the other.
\<close>

definition apart :: "string \<Rightarrow> string \<Rightarrow> bool" where
  "apart p b =
     (list_all (\<lambda>u. u = [] \<or> (\<not> prefix u b \<and> \<not> prefix b u)) (suffixes p)
      \<and> list_all (\<lambda>u. u = [] \<or> (\<not> prefix u p \<and> \<not> prefix p u)) (suffixes b))"

text \<open>A pattern is unbordered when no proper non-empty end of it is a beginning of it.\<close>

definition unbordered :: "string \<Rightarrow> bool" where
  "unbordered p = list_all (\<lambda>u. u = [] \<or> u = p \<or> \<not> prefix u p) (suffixes p)"


subsection \<open>A small run used to exercise the phases\<close>

text \<open>
  A small run: one question with three sessions. The outside world is the list of sessions
  the backend rejects at present and the list of sessions it has ingested.
\<close>

definition demoProvider :: "(string list \<times> string list) Provider" where
  "demoProvider =
     \<lparr>ingest = (\<lambda>ss tag x.
         if list_ex (\<lambda>se. sessionId se \<in> set (fst x)) ss
         then (Inl (ErrorObj ''backend unavailable''), x)
         else (Inr \<lparr>documentIds = map (\<lambda>se. ''doc-'' @ sessionId se) ss, taskIds = None\<rparr>,
               (fst x, snd x @ map sessionId ss))),
      awaitIndexing = (\<lambda>r tag x. (Inr (), x)),
      search = (\<lambda>query opts x. (Inr [''hit''], x)),
      defaultParallelism = None,
      prompts = Some \<lparr>answerPrompt =
        Some (PromptTemplate ''{{question}} / {{question}} / {{questionDate}} / {{context}} {{context}}'')\<rparr>\<rparr>"

definition demoBenchmark :: Benchmark where
  "demoBenchmark =
     \<lparr>getQuestions = [\<lparr>questionId = ''q1'', question = ''Where?'', questionType = ''single'',
                       groundTruth = ''Paris''\<rparr>],
      getHaystackSessions = (\<lambda>qid.
        [\<lparr>sessionId = ''s1'', sessionDate = None, messages = [''a'']\<rparr>,
         \<lparr>sessionId = ''s2'', sessionDate = None, messages = [''b'']\<rparr>,
         \<lparr>sessionId = ''s3'', sessionDate = None, messages = [''c'']\<rparr>])\<rparr>"

definition demoEnvironment :: "(string list \<times> string list) environment" where
  "demoEnvironment =
     \<lparr>nowMs = (\<lambda>x. 0), nowIso = (\<lambda>x. ''now''), existsSync = (\<lambda>f x. True),
      mkdirSync = (\<lambda>d x. (Inr (), x)), joinPath = (\<lambda>d f. d @ ''/'' @ f),
      getResultsDir = (\<lambda>r. ''results''),
      writeArtifact = (\<lambda>f a x. (Inr (), x)), readArtifactResults = (\<lambda>f x. (Inr [''hit''], x)),
      config = \<lparr>openaiApiKey = [], anthropicApiKey = [], googleApiKey = []\<rparr>,
      defaultAnsweringModel = ''m'',
      getModelConfig = (\<lambda>a. Inl (ErrorObj ''unknown model'')),
      generateText = (\<lambda>p x. (Inr ''answer'', x)),
      buildDefaultAnswerPrompt = (\<lambda>q c d. q),
      buildContextString = concat,
      calculateRetrievalMetrics = (\<lambda>m q g rs x. (Inr None, x))\<rparr>"

definition emptyPhase :: PhaseState where
  "emptyPhase =
     \<lparr>status = Pending, startedAt = None, completedAt = None, durationMs = None, error = None,
      completedSessions = [], ingestResult = None, resultFile = None, results = None,
      hypothesis = None, score = None, label = None, explanation = None,
      retrievalMetrics = None\<rparr>"

definition demoCheckpoint :: RunCheckpoint where
  "demoCheckpoint =
     \<lparr>cpRunId = ''run'', dataSourceRunId = ''ds'', answeringModel = [], parallelism = None,
      questions = [(''q1'', \<lparr>cpQuestionId = ''q1'', questionDate = None, containerTag = ''q1-ds'',
                            sessions = [], phases = (\<lambda>ph. emptyPhase)\<rparr>)]\<rparr>"

definition demoWorld :: "string list \<Rightarrow> (string list \<times> string list) world" where
  "demoWorld rejected = \<lparr>checkpoint = demoCheckpoint, persisted = None, ext = (rejected, [])\<rparr>"

definition quietRuntime :: "'w runtime" where
  "quietRuntime =
     \<lparr>shouldStop = (\<lambda>r w. False), sleep = (\<lambda>ms w. w), schedule = (\<lambda>b n w. [])\<rparr>"

text \<open>The first attempt, the repair of the backend by the operator, and the resumed attempt.\<close>

definition firstAttempt ::
  "phaseOutcome \<times> (Question, string \<times> int) event list \<times> (string list \<times> string list) world" where
  "firstAttempt =
     runIngestPhase quietRuntime demoEnvironment demoProvider demoBenchmark None (demoWorld [''s3''])"

definition repaired :: "(string list \<times> string list) world \<Rightarrow> (string list \<times> string list) world" where
  "repaired s = s\<lparr>ext := ([], snd (ext s))\<rparr>"

definition resumedAttempt ::
  "phaseOutcome \<times> (Question, string \<times> int) event list \<times> (string list \<times> string list) world" where
  "resumedAttempt =
     runIngestPhase quietRuntime demoEnvironment demoProvider demoBenchmark None
       (repaired (snd (snd firstAttempt)))"

definition ingestStateOf :: "'x world \<Rightarrow> string \<Rightarrow> PhaseState option" where
  "ingestStateOf s qid = map_option (\<lambda>entry. phases entry Ingest) (questionEntry (checkpoint s) qid)"

definition demoQuestion :: Question where
  "demoQuestion = \<lparr>questionId = ''q1'', question = ''Where?'', questionType = ''single'',
                    groundTruth = ''Paris''\<rparr>"


section \<open>Properties of the parallelism resolver\<close>

lemma resolveParallelism_chain:
  "resolveParallelism phase cli prov = priority_chain phase cli prov"
  by (cases cli; cases prov)
     (auto simp: resolveParallelism_def priority_chain_def first_defined_def List.map_filter_simps)

lemma phase_cfg_positive:
  "cfg_positive (Some c) \<Longrightarrow> phase_cfg c phase = Some n \<Longrightarrow> 0 < n"
  by (cases phase) (auto simp: cfg_positive_def)

lemma default_cfg_positive:
  "cfg_positive (Some c) \<Longrightarrow> default_cfg c = Some n \<Longrightarrow> 0 < n"
  by (auto simp: cfg_positive_def)

lemma resolveParallelism_positive:
  assumes "cfg_positive cli" and "cfg_positive prov"
  shows "0 < resolveParallelism phase cli prov"
  using assms
  by (cases cli; cases prov)
     (auto simp: resolveParallelism_def dest: phase_cfg_positive default_cfg_positive)

text \<open>
  C5 (as stated, refuted): the resolver is claimed to return a positive integer for every
  input. A caller configuration whose default is 0 makes it return 0.
\<close>

theorem resolveParallelism_not_always_positive:
  "\<not> 0 < resolveParallelism Ingest (Some (no_cfg\<lparr>default_cfg := Some 0\<rparr>)) None"
  by (simp add: resolveParallelism_def no_cfg_def)

text \<open>
  C5 (amended): \<^verbatim>\<open>resolveParallelism\<close> is a function of its three arguments that returns the
  first defined of caller[phase], caller.default, provider[phase], provider.default, and 1
  when none is defined; the result is positive whenever every defined entry of both
  configurations is positive. The four examples of the specification hold: caller
  {ingest:3, default:5} with provider {ingest:2, default:1} gives 3 for ingest; caller
  {default:5} with provider {ingest:2} gives 5; no caller configuration with provider
  {default:1} gives 1; neither configuration gives 1.
\<close>

theorem resolveParallelism_priority:
  "resolveParallelism phase cli prov = priority_chain phase cli prov
   \<and> (cfg_positive cli \<and> cfg_positive prov \<longrightarrow> 0 < resolveParallelism phase cli prov)
   \<and> resolveParallelism Ingest
        (Some (no_cfg\<lparr>ingest_cfg := Some 3, default_cfg := Some 5\<rparr>))
        (Some (no_cfg\<lparr>ingest_cfg := Some 2, default_cfg := Some 1\<rparr>)) = 3
   \<and> resolveParallelism Ingest
        (Some (no_cfg\<lparr>default_cfg := Some 5\<rparr>))
        (Some (no_cfg\<lparr>ingest_cfg := Some 2\<rparr>)) = 5
   \<and> resolveParallelism Ingest None (Some (no_cfg\<lparr>default_cfg := Some 1\<rparr>)) = 1
   \<and> resolveParallelism Ingest None None = 1"
proof -
  have ex: "resolveParallelism Ingest
        (Some (no_cfg\<lparr>ingest_cfg := Some 3, default_cfg := Some 5\<rparr>))
        (Some (no_cfg\<lparr>ingest_cfg := Some 2, default_cfg := Some 1\<rparr>)) = 3"
    "resolveParallelism Ingest
        (Some (no_cfg\<lparr>default_cfg := Some 5\<rparr>))
        (Some (no_cfg\<lparr>ingest_cfg := Some 2\<rparr>)) = 5"
    "resolveParallelism Ingest None (Some (no_cfg\<lparr>default_cfg := Some 1\<rparr>)) = 1"
    "resolveParallelism Ingest None None = 1"
    by (simp_all add: resolveParallelism_def no_cfg_def)
  show ?thesis
    using resolveParallelism_chain resolveParallelism_positive ex by blast
qed

theorem resolveParallelism_priority_witness:
  "cfg_positive (Some (no_cfg\<lparr>search_cfg := Some 4\<rparr>)) \<and> cfg_positive None
   \<and> resolveParallelism Search (Some (no_cfg\<lparr>search_cfg := Some 4\<rparr>)) None = 4
   \<and> 0 < resolveParallelism Search (Some (no_cfg\<lparr>search_cfg := Some 4\<rparr>)) None"
  using resolveParallelism_priority [of Search "Some (no_cfg\<lparr>search_cfg := Some 4\<rparr>)" None]
  by (simp add: cfg_positive_def no_cfg_def priority_chain_def first_defined_def
      List.map_filter_simps)

section \<open>Properties of the batch executor\<close>

lemma dispatched_simps [simp]:
  "dispatched [] = []"
  "dispatched (tr @ tr') = dispatched tr @ dispatched tr'"
  "dispatched (TaskDispatched b c # tr) = (b, c) # dispatched tr"
  "dispatched (StopSampled b v # tr) = dispatched tr"
  "dispatched (OnBatchStart b n # tr) = dispatched tr"
  "dispatched (OnTaskComplete c r # tr) = dispatched tr"
  "dispatched (OnError c e # tr) = dispatched tr"
  "dispatched (OnBatchComplete b rs # tr) = dispatched tr"
  "dispatched (Waited ms # tr) = dispatched tr"
  by (simp_all add: dispatched_def)

lemma errors_simps [simp]:
  "errors [] = []"
  "errors (tr @ tr') = errors tr @ errors tr'"
  "errors (TaskDispatched b c # tr) = errors tr"
  "errors (StopSampled b v # tr) = errors tr"
  "errors (OnBatchStart b n # tr) = errors tr"
  "errors (OnTaskComplete c r # tr) = errors tr"
  "errors (OnError c e # tr) = (c, e) # errors tr"
  "errors (OnBatchComplete b rs # tr) = errors tr"
  "errors (Waited ms # tr) = errors tr"
  by (simp_all add: errors_def)

lemma completions_simps [simp]:
  "completions [] = []"
  "completions (tr @ tr') = completions tr @ completions tr'"
  "completions (TaskDispatched b c # tr) = completions tr"
  "completions (StopSampled b v # tr) = completions tr"
  "completions (OnBatchStart b n # tr) = completions tr"
  "completions (OnTaskComplete c r # tr) = (c, r) # completions tr"
  "completions (OnError c e # tr) = completions tr"
  "completions (OnBatchComplete b rs # tr) = completions tr"
  "completions (Waited ms # tr) = completions tr"
  by (simp_all add: completions_def)

lemma stopSamples_simps [simp]:
  "stopSamples [] = []"
  "stopSamples (tr @ tr') = stopSamples tr @ stopSamples tr'"
  "stopSamples (TaskDispatched b c # tr) = stopSamples tr"
  "stopSamples (StopSampled b v # tr) = (b, v) # stopSamples tr"
  "stopSamples (OnBatchStart b n # tr) = stopSamples tr"
  "stopSamples (OnTaskComplete c r # tr) = stopSamples tr"
  "stopSamples (OnError c e # tr) = stopSamples tr"
  "stopSamples (OnBatchComplete b rs # tr) = stopSamples tr"
  "stopSamples (Waited ms # tr) = stopSamples tr"
  by (simp_all add: stopSamples_def)

lemma batchStarts_simps [simp]:
  "batchStarts [] = []"
  "batchStarts (tr @ tr') = batchStarts tr @ batchStarts tr'"
  "batchStarts (TaskDispatched b c # tr) = batchStarts tr"
  "batchStarts (StopSampled b v # tr) = batchStarts tr"
  "batchStarts (OnBatchStart b n # tr) = (b, n) # batchStarts tr"
  "batchStarts (OnTaskComplete c r # tr) = batchStarts tr"
  "batchStarts (OnError c e # tr) = batchStarts tr"
  "batchStarts (OnBatchComplete b rs # tr) = batchStarts tr"
  "batchStarts (Waited ms # tr) = batchStarts tr"
  by (simp_all add: batchStarts_def)

lemma settledTasks_simps [simp]:
  "settledTasks [] = []"
  "settledTasks (tr @ tr') = settledTasks tr @ settledTasks tr'"
  "settledTasks (TaskDispatched b c # tr) = settledTasks tr"
  "settledTasks (StopSampled b v # tr) = settledTasks tr"
  "settledTasks (OnBatchStart b n # tr) = settledTasks tr"
  "settledTasks (OnTaskComplete c r # tr) = c # settledTasks tr"
  "settledTasks (OnError c e # tr) = c # settledTasks tr"
  "settledTasks (OnBatchComplete b rs # tr) = settledTasks tr"
  "settledTasks (Waited ms # tr) = settledTasks tr"
  by (simp_all add: settledTasks_def)

lemma failuresOf_simps [simp]:
  "failuresOf [] = []"
  "failuresOf (TaskOk r c # rs) = failuresOf rs"
  "failuresOf (TaskErr e c # rs) = (c, e) # failuresOf rs"
  by (simp_all add: failuresOf_def)

lemma successesOf_simps [simp]:
  "successesOf [] = []"
  "successesOf (TaskOk r c # rs) = (c, r) # successesOf rs"
  "successesOf (TaskErr e c # rs) = successesOf rs"
  by (simp_all add: successesOf_def)

lemma controlOf_simps [simp]:
  "controlOf [] = []"
  "controlOf (tr @ tr') = controlOf tr @ controlOf tr'"
  "controlOf (TaskDispatched b c # tr) = Dispatch b (index c) # controlOf tr"
  "controlOf (StopSampled b v # tr) = Sample b v # controlOf tr"
  "controlOf (OnBatchStart b n # tr) = controlOf tr"
  "controlOf (OnTaskComplete c r # tr) = controlOf tr"
  "controlOf (OnError c e # tr) = controlOf tr"
  "controlOf (OnBatchComplete b rs # tr) = controlOf tr"
  "controlOf (Waited ms # tr) = controlOf tr"
  by (simp_all add: controlOf_def)

lemma completionOrder_distinct: "distinct (completionOrder proposed n)"
  by (auto simp: completionOrder_def Let_def)

lemma completionOrder_set: "set (completionOrder proposed n) = {0..<n}"
  by (auto simp: completionOrder_def Let_def)

lemma completionOrder_mset: "mset (completionOrder proposed n) = mset [0..<n]"
  by (rule iffD1 [OF set_eq_iff_mset_eq_distinct])
     (simp_all add: completionOrder_distinct completionOrder_set)

lemma dispatches_events:
  "dispatched (map (TaskDispatched b) cs) = map (Pair b) cs"
  "settledTasks (map (TaskDispatched b) cs) = []"
  "errors (map (TaskDispatched b) cs) = []"
  "completions (map (TaskDispatched b) cs) = []"
  "stopSamples (map (TaskDispatched b) cs) = []"
  "batchStarts (map (TaskDispatched b) cs) = []"
  "controlOf (map (TaskDispatched b) cs) = map (\<lambda>c. Dispatch b (index c)) cs"
  by (induction cs) simp_all

lemma settleInOrder_events:
  "settleInOrder task cs js w = (outs, evs, w') \<Longrightarrow>
     map fst outs = js \<and> (\<forall>jo \<in> set outs. contextOf (snd jo) = cs ! fst jo)
     \<and> dispatched evs = [] \<and> stopSamples evs = [] \<and> batchStarts evs = [] \<and> controlOf evs = []
     \<and> settledTasks evs = map ((!) cs) js
     \<and> errors evs = failuresOf (map snd outs)
     \<and> completions evs = successesOf (map snd outs)"
proof (induction js arbitrary: w outs evs w')
  case Nil
  then show ?case by simp
next
  case (Cons j js)
  obtain out w1 where t: "task (cs ! j) w = (out, w1)" by (cases "task (cs ! j) w")
  obtain outs1 evs1 w2 where s: "settleInOrder task cs js w1 = (outs1, evs1, w2)"
    by (cases "settleInOrder task cs js w1")
  from Cons.IH [OF s] Cons.prems t s show ?case
    by (cases out) auto
qed


text \<open>Which tasks failed and which succeeded does not depend on the order of the outcomes.\<close>

lemma concat_map_mset:
  "mset (concat (map g xs)) = (\<Sum>x \<in># mset xs. mset (g x))"
  by (induction xs) simp_all

lemma failuresOf_mset:
  "mset rs = mset rs' \<Longrightarrow> mset (failuresOf rs) = mset (failuresOf rs')"
  unfolding failuresOf_def concat_map_mset by simp

lemma successesOf_mset:
  "mset rs = mset rs' \<Longrightarrow> mset (successesOf rs) = mset (successesOf rs')"
  unfolding successesOf_def concat_map_mset by simp

text \<open>Sorting the outcomes by batch offset puts them in batch-input order.\<close>

lemma sort_key_offsets:
  assumes "mset (map fst outs) = mset [0..<n]"
  shows "map fst (sort_key fst outs) = [0..<n]"
proof -
  have m: "mset (map fst (sort_key fst outs)) = mset [0..<n]"
    using assms by simp
  have "sorted (map fst (sort_key fst outs))" by (rule sorted_sort_key)
  moreover have "distinct (map fst (sort_key fst outs))"
    using m mset_eq_imp_distinct_iff [OF m] by simp
  moreover have "set (map fst (sort_key fst outs)) = set [0..<n]"
    using m by (rule mset_eq_setD)
  ultimately show ?thesis
    by (intro sorted_distinct_set_unique) simp_all
qed

lemma inFlight_append: "inFlight (tr @ tr') running = inFlight tr' (inFlight tr running)"
  by (induction tr running rule: inFlight.induct) simp_all




lemma inFlight_dispatches: "inFlight (map (TaskDispatched b) cs) running = running @ cs"
  by (induction cs arbitrary: running) simp_all

lemma inFlight_settling:
  "dispatched tr = [] \<Longrightarrow> mset (inFlight tr running) = mset running - mset (settledTasks tr)"
proof (induction tr arbitrary: running)
  case Nil then show ?case by simp
next
  case (Cons ev tr) then show ?case by (cases ev) simp_all
qed

lemma settleAll_events:
  assumes "settleAll b task cs proposed w = (rs, evs, w')"
  shows "dispatched evs = map (Pair b) cs"
    and "mset (settledTasks evs) = mset cs"
    and "map contextOf rs = cs"
    and "mset (errors evs) = mset (failuresOf rs)"
    and "mset (completions evs) = mset (successesOf rs)"
    and "stopSamples evs = []"
    and "batchStarts evs = []"
    and "controlOf evs = map (\<lambda>c. Dispatch b (index c)) cs"
    and "inFlight evs [] = []"
proof -
  let ?js = "completionOrder proposed (length cs)"
  obtain outs evs0 w0 where s: "settleInOrder task cs ?js w = (outs, evs0, w0)"
    by (cases "settleInOrder task cs ?js w")
  from assms s have eq: "rs = map snd (sort_key fst outs)"
    "evs = map (TaskDispatched b) cs @ evs0"
    by (simp_all add: settleAll_def)
  note ev = settleInOrder_events [OF s]
  from ev have offs: "mset (map fst outs) = mset [0..<length cs]"
    by (simp add: completionOrder_mset)
  show "dispatched evs = map (Pair b) cs"
    using ev by (simp add: eq dispatches_events)
  have "mset (settledTasks evs0) = mset (map ((!) cs) ?js)"
    using ev by simp
  also have "\<dots> = mset (map ((!) cs) [0..<length cs])"
    by (simp add: completionOrder_mset)
  finally have settled: "mset (settledTasks evs0) = mset cs"
    by (simp add: map_nth)
  then show "mset (settledTasks evs) = mset cs"
    by (simp add: eq dispatches_events)
  have "mset (inFlight evs []) = mset cs - mset (settledTasks evs0)"
    using ev by (simp add: eq inFlight_append inFlight_dispatches inFlight_settling)
  then show "inFlight evs [] = []"
    unfolding settled by simp
  have "\<forall>jo \<in> set (sort_key fst outs). contextOf (snd jo) = cs ! fst jo"
    using ev by simp
  then have "map contextOf rs = map ((!) cs) (map fst (sort_key fst outs))"
    unfolding eq by simp
  also have "\<dots> = map ((!) cs) [0..<length cs]"
    by (simp only: sort_key_offsets [OF offs])
  finally show "map contextOf rs = cs"
    by (simp add: map_nth)
  have ms: "mset (map snd outs) = mset rs"
    unfolding eq by simp
  show "mset (errors evs) = mset (failuresOf rs)"
    using ev failuresOf_mset [OF ms] by (simp add: eq(2) dispatches_events)
  show "mset (completions evs) = mset (successesOf rs)"
    using ev successesOf_mset [OF ms] by (simp add: eq(2) dispatches_events)
  show "stopSamples evs = []"
    using ev by (simp add: eq dispatches_events)
  show "batchStarts evs = []"
    using ev by (simp add: eq dispatches_events)
  show "controlOf evs = map (\<lambda>c. Dispatch b (index c)) cs"
    using ev by (simp add: eq dispatches_events)
qed


lemma find_failed_hd:
  "find (\<lambda>r. \<not> success r) rs = (case failuresOf rs of [] \<Rightarrow> None | (c, e) # _ \<Rightarrow> Some (TaskErr e c))"
proof (induction rs)
  case Nil then show ?case by simp
next
  case (Cons r rs) then show ?case by (cases r) auto
qed

lemma successful_results:
  "failuresOf rs = [] \<Longrightarrow>
     [r. TaskOk r c \<leftarrow> rs] = map snd (successesOf rs)
     \<and> map fst (successesOf rs) = map contextOf rs"
proof (induction rs)
  case Nil then show ?case by simp
next
  case (Cons r rs) then show ?case by (cases r) auto
qed

lemma batchContexts_eq:
  assumes "a \<le> e" "e \<le> length xs"
  shows "batchContexts (slice xs a e) a (length xs) = map (ctxAt xs) [a..<e]"
proof (rule nth_equalityI)
  show "length (batchContexts (slice xs a e) a (length xs)) = length (map (ctxAt xs) [a..<e])"
    using assms by (simp add: batchContexts_def slice_def)
next
  fix i assume "i < length (batchContexts (slice xs a e) a (length xs))"
  then have i: "i < e - a" using assms by (simp add: batchContexts_def slice_def)
  then show "batchContexts (slice xs a e) a (length xs) ! i = map (ctxAt xs) [a..<e] ! i"
    using assms by (simp add: batchContexts_def slice_def ctxAt_def)
qed

lemma less_totalBatches_iff:
  assumes "0 < c"
  shows "(b < nat \<lceil>real n / real_of_int c\<rceil>) = (b * nat c < n)"
proof -
  have "(b < nat \<lceil>real n / real_of_int c\<rceil>) = (int b < \<lceil>real n / real_of_int c\<rceil>)"
    by (simp add: zless_nat_eq_int_zless)
  also have "\<dots> = (real_of_int (int b) < real n / real_of_int c)"
    by (simp only: less_ceiling_iff)
  also have "\<dots> = (real_of_int (int b) * real_of_int c < real n)"
    using assms by (simp add: pos_less_divide_eq)
  also have "\<dots> = (real (b * nat c) < real n)"
    using assms by simp
  also have "\<dots> = (b * nat c < n)"
    by (simp only: of_nat_less_iff)
  finally show ?thesis .
qed

lemma runBatch_split:
  "runBatch rt opts C b w = (brs, evs, w1) \<Longrightarrow>
     \<exists>evs0. settleAll b (executeTask opts)
              (batchContexts (slice (items opts) (b * C) (min (b * C + C) (length (items opts))))
                 (b * C) (length (items opts)))
              (schedule rt b
                 (length (slice (items opts) (b * C) (min (b * C + C) (length (items opts))))) w)
              w = (brs, evs0, w1)
           \<and> evs = OnBatchStart b
                     (length (slice (items opts) (b * C) (min (b * C + C) (length (items opts)))))
                   # evs0"
  by (auto simp: runBatch_def Let_def split: prod.splits)

lemma runBatch_outcomes:
  assumes "runBatch rt opts C b w = (brs, evs, w1)"
  shows "mset (errors evs) = mset (failuresOf brs)"
    and "mset (completions evs) = mset (successesOf brs)"
    and "stopSamples evs = []"
    and "inFlight evs [] = []"
proof -
  from runBatch_split [OF assms] obtain evs0 pr n cs where
    s: "settleAll b (executeTask opts) cs pr w = (brs, evs0, w1)" and e: "evs = OnBatchStart b n # evs0"
    by blast
  note ev = settleAll_events [OF s]
  show "mset (errors evs) = mset (failuresOf brs)" using ev(4) e by simp
  show "mset (completions evs) = mset (successesOf brs)" using ev(5) e by simp
  show "stopSamples evs = []" using ev(6) e by simp
  show "inFlight evs [] = []" using ev(9) e by simp
qed

lemma runBatch_events:
  assumes "runBatch rt opts C b w = (brs, evs, w1)" and "b * C \<le> length (items opts)"
  shows "dispatched evs =
           map (\<lambda>i. (b, ctxAt (items opts) i)) [b * C..<min (b * C + C) (length (items opts))]"
    and "mset (settledTasks evs)
           = mset (map (ctxAt (items opts)) [b * C..<min (b * C + C) (length (items opts))])"
    and "map contextOf brs = map (ctxAt (items opts)) [b * C..<min (b * C + C) (length (items opts))]"
    and "batchStarts evs = [(b, min (b * C + C) (length (items opts)) - b * C)]"
    and "controlOf evs = map (Dispatch b) [b * C..<min (b * C + C) (length (items opts))]"
proof -
  let ?N = "length (items opts)"
  let ?e = "min (b * C + C) ?N"
  let ?cs = "batchContexts (slice (items opts) (b * C) ?e) (b * C) ?N"
  have len: "length (slice (items opts) (b * C) ?e) = ?e - b * C"
    using assms(2) by (simp add: slice_def)
  from runBatch_split [OF assms(1)] obtain evs0 where
    s: "settleAll b (executeTask opts) ?cs (schedule rt b (?e - b * C) w) w = (brs, evs0, w1)"
    and eq: "evs = OnBatchStart b (?e - b * C) # evs0"
    unfolding len by blast
  have cs: "?cs = map (ctxAt (items opts)) [b * C..<?e]"
    using assms(2) by (intro batchContexts_eq) simp_all
  note ev = settleAll_events [OF s]
  show "dispatched evs = map (\<lambda>i. (b, ctxAt (items opts) i)) [b * C..<?e]"
    using ev(1) eq cs by (simp add: comp_def)
  show "mset (settledTasks evs) = mset (map (ctxAt (items opts)) [b * C..<?e])"
    using ev(2) eq cs by simp
  show "map contextOf brs = map (ctxAt (items opts)) [b * C..<?e]"
    using ev(3) cs by simp
  show "batchStarts evs = [(b, ?e - b * C)]"
    using ev(7) eq by simp
  show "controlOf evs = map (Dispatch b) [b * C..<?e]"
    using ev(8) eq cs by (simp add: comp_def ctxAt_def)
qed


lemma batchLoop_done:
  "\<not> k < T \<Longrightarrow> batchLoop rt opts C T k acc w = (Inr acc, [], w)"
  by (subst batchLoop.simps) simp

lemma batchLoop_stop:
  "k < T \<Longrightarrow> shouldStop rt (runId opts) w \<Longrightarrow>
     batchLoop rt opts C T k acc w = (Inl stoppedByUser, [StopSampled k True], w)"
  by (subst batchLoop.simps) simp

lemma batchLoop_fail:
  assumes "k < T" "\<not> shouldStop rt (runId opts) w" "runBatch rt opts C k w = (brs, evs, w1)"
    and "failuresOf brs = (c, e) # es"
  shows "batchLoop rt opts C T k acc w = (Inl e, StopSampled k False # evs, w1)"
proof -
  have "find (\<lambda>r. \<not> success r) brs = Some (TaskErr e c)"
    using assms(4) by (simp add: find_failed_hd)
  then show ?thesis
    using assms(1-3) by (subst batchLoop.simps) simp
qed

lemma batchLoop_step:
  assumes "k < T" "\<not> shouldStop rt (runId opts) w" "runBatch rt opts C k w = (brs, evs, w1)"
    and "failuresOf brs = []"
    and "batchLoop rt opts C T (Suc k) (acc @ map snd (successesOf brs))
           (afterBatch rt opts C T k w) = (res, evs2, w3)"
  shows "\<exists>mid. batchLoop rt opts C T k acc w = (res, StopSampled k False # evs @ mid @ evs2, w3)
           \<and> dispatched mid = [] \<and> errors mid = [] \<and> completions mid = []
           \<and> stopSamples mid = [] \<and> batchStarts mid = [] \<and> settledTasks mid = []
           \<and> controlOf mid = []"
proof -
  have f: "find (\<lambda>r. \<not> success r) brs = None"
    by (simp add: find_failed_hd assms(4))
  have sr: "[r. TaskOk r c \<leftarrow> brs] = map snd (successesOf brs)"
    using successful_results [OF assms(4)] by simp
  let ?waits = "int k < int T - 1 \<and> rateLimitMs opts > 0"
  let ?mid = "OnBatchComplete k (map snd (successesOf brs))
                # (if ?waits then [Waited (rateLimitMs opts)] else [])"
  have w2: "afterBatch rt opts C T k w = (if ?waits then sleep rt (rateLimitMs opts) w1 else w1)"
    using assms(3) by (simp add: afterBatch_def)
  have "batchLoop rt opts C T k acc w = (res, StopSampled k False # evs @ ?mid @ evs2, w3)"
    using assms(1-3) f assms(5) unfolding w2 sr [symmetric]
    by (subst batchLoop.simps) (simp add: Let_def)
  moreover have "dispatched ?mid = [] \<and> errors ?mid = [] \<and> completions ?mid = []
           \<and> stopSamples ?mid = [] \<and> batchStarts ?mid = [] \<and> settledTasks ?mid = []
           \<and> controlOf ?mid = []"
    by simp
  ultimately show ?thesis by blast
qed

text \<open>
  Induction over the batches of a run: the loop is over, the stop signal is found set, a
  batch has a failed task, or a batch succeeds and the loop goes on.
\<close>

lemma batchLoop_induct:
  assumes fin: "\<And>k acc w. \<not> k < T \<Longrightarrow> P k acc w (Inr acc, [], w)"
    and stop: "\<And>k acc w. k < T \<Longrightarrow> shouldStop rt (runId opts) w \<Longrightarrow>
                 P k acc w (Inl stoppedByUser, [StopSampled k True], w)"
    and fail: "\<And>k acc w brs evs w1 c e es.
                 k < T \<Longrightarrow> \<not> shouldStop rt (runId opts) w \<Longrightarrow>
                 runBatch rt opts C k w = (brs, evs, w1) \<Longrightarrow> failuresOf brs = (c, e) # es \<Longrightarrow>
                 P k acc w (Inl e, StopSampled k False # evs, w1)"
    and step: "\<And>k acc w brs evs w1 mid res evs2 w3.
                 k < T \<Longrightarrow> \<not> shouldStop rt (runId opts) w \<Longrightarrow>
                 runBatch rt opts C k w = (brs, evs, w1) \<Longrightarrow> failuresOf brs = [] \<Longrightarrow>
                 errors evs = [] \<Longrightarrow>
                 dispatched mid = [] \<and> errors mid = [] \<and> completions mid = []
                   \<and> stopSamples mid = [] \<and> batchStarts mid = [] \<and> settledTasks mid = []
                   \<and> controlOf mid = [] \<Longrightarrow>
                 batchLoop rt opts C T (Suc k) (acc @ map snd (successesOf brs))
                   (afterBatch rt opts C T k w) = (res, evs2, w3) \<Longrightarrow>
                 P (Suc k) (acc @ map snd (successesOf brs)) (afterBatch rt opts C T k w)
                   (res, evs2, w3) \<Longrightarrow>
                 P k acc w (res, StopSampled k False # evs @ mid @ evs2, w3)"
  shows "P k acc w (batchLoop rt opts C T k acc w)"
proof (induction "T - k" arbitrary: k acc w)
  case 0
  then have "\<not> k < T" by simp
  then show ?case using fin [of k acc w] by (simp add: batchLoop_done)
next
  case (Suc n)
  then have kT: "k < T" by simp
  show ?case
  proof (cases "shouldStop rt (runId opts) w")
    case True
    then show ?thesis using stop [OF kT] kT by (simp add: batchLoop_stop)
  next
    case False
    obtain brs evs w1 where rb: "runBatch rt opts C k w = (brs, evs, w1)"
      by (cases "runBatch rt opts C k w")
    show ?thesis
    proof (cases "failuresOf brs")
      case (Cons ce es)
      obtain c e where ce: "ce = (c, e)" by (cases ce)
      with Cons have er: "failuresOf brs = (c, e) # es" by simp
      from batchLoop_fail [OF kT False rb er] fail [OF kT False rb er]
      show ?thesis by simp
    next
      case Nil
      with runBatch_outcomes(1) [OF rb] have noerr: "errors evs = []" by simp
      let ?acc = "acc @ map snd (successesOf brs)"
      let ?w = "afterBatch rt opts C T k w"
      obtain res evs2 w3 where rest: "batchLoop rt opts C T (Suc k) ?acc ?w = (res, evs2, w3)"
        by (cases "batchLoop rt opts C T (Suc k) ?acc ?w")
      from Suc.hyps(2) have "n = T - Suc k" by simp
      from Suc.hyps(1) [OF this, of ?acc ?w] rest
      have ih: "P (Suc k) ?acc ?w (res, evs2, w3)" by simp
      from batchLoop_step [OF kT False rb Nil rest]
      obtain mid where m: "batchLoop rt opts C T k acc w
             = (res, StopSampled k False # evs @ mid @ evs2, w3)"
        "dispatched mid = [] \<and> errors mid = [] \<and> completions mid = []
           \<and> stopSamples mid = [] \<and> batchStarts mid = [] \<and> settledTasks mid = []
           \<and> controlOf mid = []"
        by blast
      from step [OF kT False rb Nil noerr m(2) rest ih] m(1) show ?thesis by simp
    qed
  qed
qed

lemma div_in_batch:
  assumes "k * C \<le> i" "i < k * C + C"
  shows "i div C = (k::nat)"
  using assms by (intro div_nat_eqI) (simp_all add: mult.commute)

lemma batch_range_map:
  "map (\<lambda>i. (k, f i)) [k * C..<min (k * C + C) N]
     = map (\<lambda>i. (i div C, f i)) [k * C..<min (k * C + C) N]"
  by (rule map_cong) (auto simp: div_in_batch)

lemma upt_batches:
  "[k * C..<min (k * C + C) N] @ [Suc k * C..<min ((Suc k + n) * C) N]
     = [k * C..<min ((k + Suc n) * C) (N::nat)]"
proof -
  have e: "(Suc k + n) * C = k * C + C + n * C" "(k + Suc n) * C = k * C + C + n * C"
    "Suc k * C = k * C + C"
    by (simp_all add: add_mult_distrib)
  show ?thesis
  proof (cases "k * C + C \<le> N")
    case True
    then have le: "k * C + C \<le> min (k * C + C + n * C) N" by simp
    from le obtain d where d: "min (k * C + C + n * C) N = k * C + C + d"
      using le_Suc_ex by blast
    have "[k * C..<k * C + C + d] = [k * C..<k * C + C] @ [k * C + C..<k * C + C + d]"
      by (rule upt_add_eq_append) simp
    then have "[k * C..<k * C + C] @ [k * C + C..<min (k * C + C + n * C) N]
            = [k * C..<min (k * C + C + n * C) N]"
      unfolding d by simp
    moreover have "min (k * C + C) N = k * C + C" using True by simp
    ultimately show ?thesis unfolding e by simp
  next
    case False
    then have "min (k * C + C + n * C) N = N" "min (k * C + C) N = N" "N \<le> k * C + C"
      by simp_all
    then show ?thesis unfolding e by simp
  qed
qed

lemma loop_structure:
  assumes TC: "\<And>b. (b < T) = (b * C < length (items opts))"
    and out: "batchLoop rt (opts :: ('t, 'r, 'w) ParallelExecutionOptions) C T k acc w = (res, tr, w')"
    and kT: "k \<le> T"
  shows "k + batchesRun tr \<le> T
     \<and> batchStarts tr = map (\<lambda>b. (b, min (b * C + C) (length (items opts)) - b * C))
                            [k..<k + batchesRun tr]
     \<and> dispatched tr = map (\<lambda>i. (i div C, ctxAt (items opts) i))
                            [k * C..<min ((k + batchesRun tr) * C) (length (items opts))]
     \<and> mset (settledTasks tr) = mset (map (ctxAt (items opts))
                            [k * C..<min ((k + batchesRun tr) * C) (length (items opts))])"
proof -
  let ?N = "length (items opts)"
  let ?P = "\<lambda>k (acc::'r list) (w::'w) (out:: (thrown + 'r list) \<times> ('t, 'r) event list \<times> 'w).
      k \<le> T \<longrightarrow>
      (k + batchesRun (fst (snd out)) \<le> T
       \<and> batchStarts (fst (snd out)) = map (\<lambda>b. (b, min (b * C + C) ?N - b * C))
                            [k..<k + batchesRun (fst (snd out))]
       \<and> dispatched (fst (snd out)) = map (\<lambda>i. (i div C, ctxAt (items opts) i))
                            [k * C..<min ((k + batchesRun (fst (snd out))) * C) ?N]
       \<and> mset (settledTasks (fst (snd out))) = mset (map (ctxAt (items opts))
                            [k * C..<min ((k + batchesRun (fst (snd out))) * C) ?N]))"
  have "?P k acc w (batchLoop rt opts C T k acc w)"
  proof (rule batchLoop_induct [where P = ?P])
    fix k acc w assume "\<not> k < T"
    then show "?P k acc w (Inr acc, [], w)" by (simp add: batchesRun_def)
  next
    fix k acc w assume "k < T"
    then show "?P k acc w (Inl stoppedByUser, [StopSampled k True], w)"
      by (simp add: batchesRun_def)
  next
    fix k acc w brs evs w1 c e es
    assume k: "k < T" and rb: "runBatch rt opts C k w = (brs, evs, w1)"
    from k TC have "k * C \<le> ?N" by (simp add: less_imp_le)
    note ev = runBatch_events [OF rb this]
    have "(k + 1) * C = k * C + C" by (simp add: add_mult_distrib)
    then show "?P k acc w (Inl e, StopSampled k False # evs, w1)"
      using k ev(1,2,4) batch_range_map [of k "ctxAt (items opts)" C ?N]
      by (simp add: batchesRun_def add.commute)
  next
    fix k and acc :: "'r list" and w :: 'w and brs and evs :: "('t, 'r) event list" and w1 :: 'w
      and mid :: "('t, 'r) event list" and res :: "thrown + 'r list"
      and evs2 :: "('t, 'r) event list" and w3 :: 'w
    assume k: "k < T" and rb: "runBatch rt opts C k w = (brs, evs, w1)"
      and mid: "dispatched mid = [] \<and> errors mid = [] \<and> completions mid = []
                   \<and> stopSamples mid = [] \<and> batchStarts mid = [] \<and> settledTasks mid = []
                   \<and> controlOf mid = []"
      and ih: "?P (Suc k) (acc @ map snd (successesOf brs)) (afterBatch rt opts C T k w)
                 (res, evs2, w3)"
    from k TC have "k * C \<le> ?N" by (simp add: less_imp_le)
    note ev = runBatch_events [OF rb this]
    let ?n = "batchesRun evs2"
    from ih k have ih':
      "Suc k + ?n \<le> T"
      "batchStarts evs2 = map (\<lambda>b. (b, min (b * C + C) ?N - b * C)) [Suc k..<Suc k + ?n]"
      "dispatched evs2 = map (\<lambda>i. (i div C, ctxAt (items opts) i))
                            [Suc k * C..<min ((Suc k + ?n) * C) ?N]"
      "mset (settledTasks evs2)
         = mset (map (ctxAt (items opts)) [Suc k * C..<min ((Suc k + ?n) * C) ?N])"
      by simp_all
    let ?tr = "StopSampled k False # evs @ mid @ evs2"
    have n: "batchesRun ?tr = Suc ?n"
      using ev(4) mid by (simp add: batchesRun_def)
    have 1: "k + batchesRun ?tr \<le> T" using n ih'(1) by simp
    have "batchStarts ?tr = (k, min (k * C + C) ?N - k * C) # batchStarts evs2"
      using ev(4) mid by simp
    also have "\<dots> = map (\<lambda>b. (b, min (b * C + C) ?N - b * C)) (k # [Suc k..<Suc k + ?n])"
      using ih'(2) by simp
    also have "k # [Suc k..<Suc k + ?n] = [k..<k + Suc ?n]"
      by (simp add: upt_conv_Cons)
    finally have 2: "batchStarts ?tr = map (\<lambda>b. (b, min (b * C + C) ?N - b * C))
                            [k..<k + batchesRun ?tr]"
      using n by simp
    have "dispatched ?tr = map (\<lambda>i. (i div C, ctxAt (items opts) i)) [k * C..<min (k * C + C) ?N]
            @ map (\<lambda>i. (i div C, ctxAt (items opts) i)) [Suc k * C..<min ((Suc k + ?n) * C) ?N]"
      using ev(1) mid ih'(3) batch_range_map [of k "ctxAt (items opts)" C ?N] by simp
    also have "\<dots> = map (\<lambda>i. (i div C, ctxAt (items opts) i)) [k * C..<min ((k + Suc ?n) * C) ?N]"
      unfolding map_append [symmetric] upt_batches ..
    finally have 3: "dispatched ?tr = map (\<lambda>i. (i div C, ctxAt (items opts) i))
                            [k * C..<min ((k + batchesRun ?tr) * C) ?N]"
      using n by simp
    have "mset (settledTasks ?tr) = mset (settledTasks evs) + mset (settledTasks evs2)"
      using mid by simp
    also have "\<dots> = mset (map (ctxAt (items opts)) [k * C..<min (k * C + C) ?N]
            @ map (ctxAt (items opts)) [Suc k * C..<min ((Suc k + ?n) * C) ?N])"
      unfolding ev(2) ih'(4) by simp
    also have "\<dots> = mset (map (ctxAt (items opts)) [k * C..<min ((k + Suc ?n) * C) ?N])"
      unfolding map_append [symmetric] upt_batches ..
    finally have 4: "mset (settledTasks ?tr) = mset (map (ctxAt (items opts))
                            [k * C..<min ((k + batchesRun ?tr) * C) ?N])"
      using n by simp
    from 1 2 3 4 show "?P k acc w (res, ?tr, w3)" by simp
  qed
  with out kT show ?thesis by simp
qed

lemma index_ctxAt [simp]: "index (ctxAt xs i) = i"
  by (simp add: ctxAt_def)

lemma batchSkeleton_0 [simp]: "batchSkeleton C N k 0 = []"
  by (simp add: batchSkeleton_def)







text \<open>
  On success the results returned are those of the tasks dispatched, in the order of
  dispatch, which is the input order; the order in which the tasks completed plays no part.
\<close>

lemma loop_success:
  assumes TC: "\<And>b. (b < T) = (b * C < length (items opts))"
    and out: "batchLoop rt (opts :: ('t, 'r, 'w) ParallelExecutionOptions) C T k acc w = (res, tr, w')"
    and ok: "errors tr = []" "\<not> stopSeen tr"
  shows "(k \<le> T \<longrightarrow> k + batchesRun tr = T)
     \<and> (\<exists>rs. res = Inr (acc @ rs) \<and> length rs = length (dispatched tr)
            \<and> mset (completions tr) = mset (zip (map snd (dispatched tr)) rs))"
proof -
  let ?N = "length (items opts)"
  let ?P = "\<lambda>k (acc::'r list) (w::'w) (out:: (thrown + 'r list) \<times> ('t, 'r) event list \<times> 'w).
      errors (fst (snd out)) = [] \<and> \<not> stopSeen (fst (snd out)) \<longrightarrow>
      (k \<le> T \<longrightarrow> k + batchesRun (fst (snd out)) = T)
      \<and> (\<exists>rs. fst out = Inr (acc @ rs) \<and> length rs = length (dispatched (fst (snd out)))
            \<and> mset (completions (fst (snd out)))
                = mset (zip (map snd (dispatched (fst (snd out)))) rs))"
  have "?P k acc w (batchLoop rt opts C T k acc w)"
  proof (rule batchLoop_induct [where P = ?P])
    fix k acc w assume "\<not> k < T"
    then show "?P k acc w (Inr acc, [], w)" by (simp add: batchesRun_def)
  next
    fix k acc w assume "k < T"
    then show "?P k acc w (Inl stoppedByUser, [StopSampled k True], w)"
      by (simp add: stopSeen_def)
  next
    fix k and acc :: "'r list" and w :: 'w and brs and evs :: "('t, 'r) event list" and w1 :: 'w
      and c e es
    assume rb: "runBatch rt opts C k w = (brs, evs, w1)" and er: "failuresOf brs = (c, e) # es"
    have "mset (errors evs) \<noteq> {#}"
      unfolding runBatch_outcomes(1) [OF rb] er by simp
    then show "?P k acc w (Inl e, StopSampled k False # evs, w1)" by simp
  next
    fix k and acc :: "'r list" and w :: 'w and brs and evs :: "('t, 'r) event list" and w1 :: 'w
      and mid :: "('t, 'r) event list" and res :: "thrown + 'r list"
      and evs2 :: "('t, 'r) event list" and w3 :: 'w
    assume k: "k < T" and rb: "runBatch rt opts C k w = (brs, evs, w1)"
      and f0: "failuresOf brs = []"
      and noerr: "errors evs = []"
      and mid: "dispatched mid = [] \<and> errors mid = [] \<and> completions mid = []
                   \<and> stopSamples mid = [] \<and> batchStarts mid = [] \<and> settledTasks mid = []
                   \<and> controlOf mid = []"
      and ih: "?P (Suc k) (acc @ map snd (successesOf brs)) (afterBatch rt opts C T k w)
                 (res, evs2, w3)"
    from k TC have "k * C \<le> ?N" by (simp add: less_imp_le)
    note ev = runBatch_events [OF rb this]
    let ?tr = "StopSampled k False # evs @ mid @ evs2"
    let ?rs1 = "map snd (successesOf brs)"
    have n: "batchesRun ?tr = Suc (batchesRun evs2)"
      using ev(4) mid by (simp add: batchesRun_def)
    have s: "stopSeen ?tr = stopSeen evs2"
      using runBatch_outcomes(3) [OF rb] mid by (simp add: stopSeen_def)
    have e: "errors ?tr = errors evs2" using noerr mid by simp
    have d: "dispatched ?tr = dispatched evs @ dispatched evs2" using mid by simp
    have c: "completions ?tr = completions evs @ completions evs2" using mid by simp
    have ctx: "map snd (dispatched evs) = map fst (successesOf brs)"
      using successful_results [OF f0] ev(1,3) by (simp add: comp_def)
    then have len: "length (map snd (dispatched evs)) = length ?rs1"
      by simp
    have z: "zip (map snd (dispatched evs)) ?rs1 = successesOf brs"
      unfolding ctx by (simp add: zip_map_fst_snd)
    show "?P k acc w (res, ?tr, w3)"
    proof
      assume a: "errors (fst (snd (res, ?tr, w3))) = [] \<and> \<not> stopSeen (fst (snd (res, ?tr, w3)))"
      with ih e s obtain rs2 where
        t: "Suc k \<le> T \<longrightarrow> Suc k + batchesRun evs2 = T"
        and r: "res = Inr ((acc @ ?rs1) @ rs2)"
        and l: "length rs2 = length (dispatched evs2)"
        and m: "mset (completions evs2) = mset (zip (map snd (dispatched evs2)) rs2)"
        by auto
      have "mset (completions ?tr) = mset (completions evs) + mset (completions evs2)"
        unfolding c by simp
      also have "\<dots> = mset (zip (map snd (dispatched evs)) ?rs1 @ zip (map snd (dispatched evs2)) rs2)"
        unfolding runBatch_outcomes(2) [OF rb] m z by simp
      also have "\<dots> = mset (zip (map snd (dispatched ?tr)) (?rs1 @ rs2))"
        unfolding d map_append using len by (simp only: zip_append)
      finally have m': "mset (completions ?tr) = mset (zip (map snd (dispatched ?tr)) (?rs1 @ rs2))" .
      have l': "length (?rs1 @ rs2) = length (dispatched ?tr)"
        unfolding d using len l by simp
      have "fst (res, ?tr, w3) = Inr (acc @ ?rs1 @ rs2)
          \<and> length (?rs1 @ rs2) = length (dispatched (fst (snd (res, ?tr, w3))))
          \<and> mset (completions (fst (snd (res, ?tr, w3))))
              = mset (zip (map snd (dispatched (fst (snd (res, ?tr, w3))))) (?rs1 @ rs2))"
        using r l' m' by simp
      then have "\<exists>rs. fst (res, ?tr, w3) = Inr (acc @ rs)
          \<and> length rs = length (dispatched (fst (snd (res, ?tr, w3))))
          \<and> mset (completions (fst (snd (res, ?tr, w3))))
              = mset (zip (map snd (dispatched (fst (snd (res, ?tr, w3))))) rs)"
        by blast
      moreover have "k \<le> T \<longrightarrow> k + batchesRun (fst (snd (res, ?tr, w3))) = T"
        using t k n by simp
      ultimately show "(k \<le> T \<longrightarrow> k + batchesRun (fst (snd (res, ?tr, w3))) = T)
          \<and> (\<exists>rs. fst (res, ?tr, w3) = Inr (acc @ rs)
          \<and> length rs = length (dispatched (fst (snd (res, ?tr, w3))))
          \<and> mset (completions (fst (snd (res, ?tr, w3))))
              = mset (zip (map snd (dispatched (fst (snd (res, ?tr, w3))))) rs))"
        by blast
    qed
  qed
  with out ok show ?thesis by simp
qed



lemma executeBatched_loop:
  assumes "0 < concurrency opts" and "items opts \<noteq> []"
  shows "executeBatched rt opts w =
           batchLoop rt opts (nat (concurrency opts))
             (totalBatchesOf (length (items opts)) (concurrency opts)) 0 [] w"
  using assms by (simp add: executeBatched_def)

lemma executeBatched_empty:
  "items opts = [] \<Longrightarrow> executeBatched rt opts w = (Inr [], [], w)"
  by (simp add: executeBatched_def)

lemma totalBatchesOf_less:
  "0 < c \<Longrightarrow> (b < totalBatchesOf n c) = (b * nat c < n)"
  unfolding totalBatchesOf_def by (rule less_totalBatches_iff)

lemma totalBatchesOf_0 [simp]: "totalBatchesOf 0 c = 0"
  by (simp add: totalBatchesOf_def)

lemma totalBatchesOf_covers:
  assumes "0 < c"
  shows "n \<le> totalBatchesOf n c * nat c"
  using totalBatchesOf_less [OF assms, of "totalBatchesOf n c" n] by simp

text \<open>
  C2: for a positive concurrency bound \<open>C\<close> and \<open>N\<close> items, the batches started are
  batches \<open>0, 1, ...\<close> in order, at most \<open>\<lceil>N / C\<rceil>\<close> of them, batch \<open>b\<close> having
  \<open>min ((b + 1) * C) N - b * C\<close> items; the tasks dispatched are those of the items
  \<open>0, 1, ...\<close> in input order, the item at global index \<open>i\<close> as part of batch \<open>i div C\<close>
  (so batch \<open>b\<close> holds the items \<open>b * C\<close> to \<open>min ((b + 1) * C) N - 1\<close>), each with the
  context \<open>(item, index = i, total = N)\<close>. When no task fails and no sample finds the stop
  signal set, all \<open>\<lceil>N / C\<rceil>\<close> batches run and the executor returns \<open>N\<close> results, the
  \<open>i\<close>-th being the result with which the task of item \<open>i\<close> completed: the completions
  reported are, in whatever order the tasks completed, exactly the pairs of the context of
  item \<open>i\<close> and the \<open>i\<close>-th result returned.
\<close>

theorem executeBatched_partition_order:
  assumes C: "0 < concurrency opts"
    and out: "executeBatched rt opts w = (res, tr, w')"
  shows "batchesRun tr \<le> nat \<lceil>real (length (items opts)) / real_of_int (concurrency opts)\<rceil>
     \<and> batchStarts tr =
         map (\<lambda>b. (b, min (b * nat (concurrency opts) + nat (concurrency opts)) (length (items opts))
                        - b * nat (concurrency opts)))
           [0..<batchesRun tr]
     \<and> dispatched tr =
         map (\<lambda>i. (i div nat (concurrency opts),
                   \<lparr>item = items opts ! i, index = i, total_count = length (items opts)\<rparr>))
           [0..<min (batchesRun tr * nat (concurrency opts)) (length (items opts))]
     \<and> (errors tr = [] \<and> \<not> stopSeen tr \<longrightarrow>
          batchesRun tr = nat \<lceil>real (length (items opts)) / real_of_int (concurrency opts)\<rceil>
          \<and> (\<exists>rs. res = Inr rs \<and> length rs = length (items opts)
                \<and> mset (completions tr) =
                    mset (zip (map (\<lambda>i. \<lparr>item = items opts ! i, index = i,
                                          total_count = length (items opts)\<rparr>)
                                 [0..<length (items opts)]) rs)))"
proof (cases "items opts = []")
  case True
  with out executeBatched_empty [OF True, of rt w] show ?thesis
    by (auto simp: batchesRun_def stopSeen_def)
next
  case False
  let ?C = "nat (concurrency opts)"
  let ?N = "length (items opts)"
  let ?T = "totalBatchesOf ?N (concurrency opts)"
  have TC: "\<And>b. (b < ?T) = (b * ?C < ?N)"
    using C by (rule totalBatchesOf_less)
  from out executeBatched_loop [OF C False, of rt w]
  have loop: "batchLoop rt opts ?C ?T 0 [] w = (res, tr, w')" by simp
  note st = loop_structure [OF TC loop, simplified]
  have ctx: "ctxAt (items opts) = (\<lambda>i. \<lparr>item = items opts ! i, index = i, total_count = ?N\<rparr>)"
    by (rule ext) (simp add: ctxAt_def)
  have succ: "batchesRun tr = ?T
          \<and> (\<exists>rs. res = Inr rs \<and> length rs = ?N
                \<and> mset (completions tr) = mset (zip (map (ctxAt (items opts)) [0..<?N]) rs))"
    if ok: "errors tr = []" "\<not> stopSeen tr"
  proof -
    from loop_success [OF TC loop ok] obtain rs where s: "batchesRun tr = ?T"
      "res = Inr rs" "length rs = length (dispatched tr)"
      "mset (completions tr) = mset (zip (map snd (dispatched tr)) rs)"
      by auto
    have m: "min (?T * ?C) ?N = ?N"
      using totalBatchesOf_covers [OF C, of ?N] by simp
    have d: "map snd (dispatched tr) = map (ctxAt (items opts)) [0..<?N]"
      using st s(1) m by (simp add: comp_def)
    then have "length (dispatched tr) = ?N"
      using length_map [of snd "dispatched tr"] by simp
    with s d show ?thesis by simp
  qed
  from st succ show ?thesis
    unfolding ctx totalBatchesOf_def by simp
qed



subsection \<open>The executor at a small run\<close>

lemmas demo_eval = executeBatched_def demoOptions_def demoRuntime_def demoTask_def
  batchLoop.simps runBatch_def settleAll_def completionOrder_def batchContexts_def slice_def
  totalBatchesOf_def Let_def



lemma demo_ok_run:
  "executeBatched demoRuntime (demoOptions [10, 20, 40] 2) [] =
    (Inr [10, 21, 42],
     [StopSampled 0 False, OnBatchStart 0 2,
      TaskDispatched 0 \<lparr>item = 10, index = 0, total_count = 3\<rparr>,
      TaskDispatched 0 \<lparr>item = 20, index = 1, total_count = 3\<rparr>,
      OnTaskComplete \<lparr>item = 20, index = 1, total_count = 3\<rparr> 21,
      OnTaskComplete \<lparr>item = 10, index = 0, total_count = 3\<rparr> 10,
      OnBatchComplete 0 [10, 21], Waited 1000, StopSampled 1 False,
      OnBatchStart 1 1,
      TaskDispatched 1 \<lparr>item = 40, index = 2, total_count = 3\<rparr>,
      OnTaskComplete \<lparr>item = 40, index = 2, total_count = 3\<rparr> 42,
      OnBatchComplete 1 [42]],
     [20, 10, 40])"
  by (simp add: demo_eval)


theorem executeBatched_partition_order_witness:
  "0 < concurrency (demoOptions [10, 20, 40] 2)
   \<and> errors (fst (snd (executeBatched demoRuntime (demoOptions [10, 20, 40] 2) []))) = []
   \<and> \<not> stopSeen (fst (snd (executeBatched demoRuntime (demoOptions [10, 20, 40] 2) [])))
   \<and> batchesRun (fst (snd (executeBatched demoRuntime (demoOptions [10, 20, 40] 2) []))) = 2
   \<and> map snd (completions (fst (snd (executeBatched demoRuntime (demoOptions [10, 20, 40] 2) []))))
       = [21, 10, 42]
   \<and> fst (executeBatched demoRuntime (demoOptions [10, 20, 40] 2) []) = Inr [10, 21, 42]"
proof -
  have c: "0 < concurrency (demoOptions [10, 20, 40] 2)"
    by (simp add: demoOptions_def)
  note run = demo_ok_run
  from executeBatched_partition_order [OF c run] c
  show ?thesis unfolding run by (simp add: stopSeen_def batchesRun_def)
qed


text \<open>
  C7 (as stated, refuted): with an empty item list and concurrency 0 the executor raises
  nothing: it returns the empty result.
\<close>

theorem executeBatched_empty_nonpositive:
  "concurrency (demoOptions [] 0) \<le> 0
   \<and> executeBatched demoRuntime (demoOptions [] 0) [] = (Inr [], [], [])"
  by (simp add: executeBatched_def demoOptions_def)

text \<open>
  C7 (amended): for every non-empty item list and every concurrency bound \<open>C \<le> 0\<close> the
  executor raises the error "Concurrency must be positive" with no event at all (no sample,
  no dispatch) and the world untouched; for the empty item list it returns the empty result
  for every concurrency bound, also without any event.
\<close>

theorem executeBatched_nonpositive:
  "(items opts \<noteq> [] \<and> concurrency opts \<le> 0 \<longrightarrow>
      executeBatched rt opts w = (Inl (ErrorObj ''Concurrency must be positive''), [], w))
   \<and> (items opts = [] \<longrightarrow> executeBatched rt opts w = (Inr [], [], w))"
  by (simp add: executeBatched_def)

theorem executeBatched_nonpositive_witness:
  "items (demoOptions [10, 20] (- 1)) \<noteq> [] \<and> concurrency (demoOptions [10, 20] (- 1)) \<le> 0
   \<and> executeBatched demoRuntime (demoOptions [10, 20] (- 1)) [7]
       = (Inl (ErrorObj ''Concurrency must be positive''), [], [7])
   \<and> items (demoOptions [] 2) = []
   \<and> executeBatched demoRuntime (demoOptions [] 2) [7] = (Inr [], [], [7])"
  using executeBatched_nonpositive [of "demoOptions [10, 20] (- 1)" demoRuntime "[7]"]
    executeBatched_nonpositive [of "demoOptions [] 2" demoRuntime "[7]"]
  by (simp add: demoOptions_def)

section \<open>Properties of the phase runners\<close>

text \<open>
  C9: the container tag is the question identifier, a hyphen and the data-source run
  identifier; the ingest task and the search task derive the same tag; two derivations from
  the same two identifiers agree; and the checkpoint store never changes the data-source run
  identifier, so that a tag derived later in a run or on a resume is the same.
\<close>

theorem containerTag_pure:
  "ingestContainerTag q cp = questionId q @ ''-'' @ dataSourceRunId cp
   \<and> searchContainerTag q cp = ingestContainerTag q cp
   \<and> (questionId q' = questionId q \<and> dataSourceRunId cp' = dataSourceRunId cp \<longrightarrow>
        ingestContainerTag q' cp' = ingestContainerTag q cp
        \<and> searchContainerTag q' cp' = searchContainerTag q cp)
   \<and> ingestContainerTag q (checkpoint (updatePhase qid phase upd s))
        = ingestContainerTag q (checkpoint s)
   \<and> ingestContainerTag q (checkpoint (updateSessions qid md s))
        = ingestContainerTag q (checkpoint s)"
  by (simp add: ingestContainerTag_def searchContainerTag_def updatePhase_def updateSessions_def
      save_def mergePhase_def updateQuestion_def)

lemma ingestPending_iff:
  "q \<in> set (ingestPending benchmark ids cp) \<longleftrightarrow>
     q \<in> set (targetQuestions ids (getQuestions benchmark))
     \<and> getPhaseStatus cp (questionId q) Ingest \<noteq> Completed"
  by (auto simp: ingestPending_def)

lemma indexingPending_iff:
  "qc \<in> set (indexingPending ids cp) \<longleftrightarrow>
     qc \<in> set (indexingTargets ids cp)
     \<and> status (phases qc Indexing) \<noteq> Completed \<and> status (phases qc Ingest) = Completed"
  by (auto simp: indexingPending_def)

lemma searchPending_iff:
  "q \<in> set (searchPending benchmark ids cp) \<longleftrightarrow>
     q \<in> set (targetQuestions ids (getQuestions benchmark))
     \<and> getPhaseStatus cp (questionId q) Search \<noteq> Completed
     \<and> getPhaseStatus cp (questionId q) Indexing = Completed"
  by (auto simp: searchPending_def)

lemma artifactPresent_iff:
  "artifactPresent env s qid \<longleftrightarrow>
     (\<exists>entry file. questionEntry (checkpoint s) qid = Some entry
        \<and> resultFile (phases entry Search) = Some file \<and> file \<noteq> []
        \<and> existsSync env file (ext s))"
  by (auto simp: artifactPresent_def split: option.splits)

lemma hypothesisPresent_iff:
  "hypothesisPresent cp qid \<longleftrightarrow>
     (\<exists>entry h. questionEntry cp qid = Some entry
        \<and> hypothesis (phases entry Answer) = Some h \<and> h \<noteq> [])"
  by (auto simp: hypothesisPresent_def split: option.splits)

lemma answerPending_iff:
  "q \<in> set (answerPending env benchmark ids s) \<longleftrightarrow>
     q \<in> set (targetQuestions ids (getQuestions benchmark))
     \<and> getPhaseStatus (checkpoint s) (questionId q) Answer \<noteq> Completed
     \<and> getPhaseStatus (checkpoint s) (questionId q) Search = Completed
     \<and> (\<exists>entry file. questionEntry (checkpoint s) (questionId q) = Some entry
          \<and> resultFile (phases entry Search) = Some file \<and> file \<noteq> []
          \<and> existsSync env file (ext s))"
  by (simp add: answerPending_def artifactPresent_iff)

lemma evaluatePending_iff:
  "q \<in> set (evaluatePending benchmark ids cp) \<longleftrightarrow>
     q \<in> set (targetQuestions ids (getQuestions benchmark))
     \<and> getPhaseStatus cp (questionId q) Evaluate \<noteq> Completed
     \<and> getPhaseStatus cp (questionId q) Answer = Completed
     \<and> (\<exists>entry h. questionEntry cp (questionId q) = Some entry
          \<and> hypothesis (phases entry Answer) = Some h \<and> h \<noteq> [])"
  by (simp add: evaluatePending_def hypothesisPresent_iff)

lemma runners_nothing_pending:
  "ingestPending benchmark ids (checkpoint s) = [] \<Longrightarrow>
     runIngestPhase rt env provider benchmark ids s = (NothingPending, [], s)"
  "indexingPending ids (checkpoint s) = [] \<Longrightarrow>
     runIndexingPhase rt env provider ids s = (NothingPending, [], s)"
  "searchPending benchmark ids (checkpoint s) = [] \<Longrightarrow>
     runSearchPhase rt env provider benchmark ids s = (NothingPending, [], s)"
  "answerPending env benchmark ids s = [] \<Longrightarrow>
     runAnswerPhase rt env benchmark ids optProvider s = (NothingPending, [], s)"
  "evaluatePending benchmark ids (checkpoint s) = [] \<Longrightarrow>
     runEvaluatePhase rt env judge benchmark ids optProvider s = (NothingPending, [], s)"
  by (simp_all add: runIngestPhase_def runIndexingPhase_def runSearchPhase_def
      runAnswerPhase_def runEvaluatePhase_def)

text \<open>
  C6: a question is in the working set of a phase if and only if it is among the phase's
  candidates, its status for the phase is not completed, and the prerequisite holds: none for
  ingest; ingest completed for indexing; indexing completed for search; search completed and
  a recorded, existing result file for answer; answer completed and a non-empty stored
  hypothesis for evaluate. When the working set is empty the runner returns at once: nothing
  is thrown, no event of the executor occurs, and the world is unchanged.
\<close>

theorem working_sets:
  "(q \<in> set (ingestPending benchmark ids (checkpoint s)) \<longleftrightarrow>
      q \<in> set (targetQuestions ids (getQuestions benchmark))
      \<and> getPhaseStatus (checkpoint s) (questionId q) Ingest \<noteq> Completed)
   \<and> (qc \<in> set (indexingPending ids (checkpoint s)) \<longleftrightarrow>
      qc \<in> set (indexingTargets ids (checkpoint s))
      \<and> status (phases qc Indexing) \<noteq> Completed \<and> status (phases qc Ingest) = Completed)
   \<and> (q \<in> set (searchPending benchmark ids (checkpoint s)) \<longleftrightarrow>
      q \<in> set (targetQuestions ids (getQuestions benchmark))
      \<and> getPhaseStatus (checkpoint s) (questionId q) Search \<noteq> Completed
      \<and> getPhaseStatus (checkpoint s) (questionId q) Indexing = Completed)
   \<and> (q \<in> set (answerPending env benchmark ids s) \<longleftrightarrow>
      q \<in> set (targetQuestions ids (getQuestions benchmark))
      \<and> getPhaseStatus (checkpoint s) (questionId q) Answer \<noteq> Completed
      \<and> getPhaseStatus (checkpoint s) (questionId q) Search = Completed
      \<and> (\<exists>entry file. questionEntry (checkpoint s) (questionId q) = Some entry
            \<and> resultFile (phases entry Search) = Some file \<and> file \<noteq> []
            \<and> existsSync env file (ext s)))
   \<and> (q \<in> set (evaluatePending benchmark ids (checkpoint s)) \<longleftrightarrow>
      q \<in> set (targetQuestions ids (getQuestions benchmark))
      \<and> getPhaseStatus (checkpoint s) (questionId q) Evaluate \<noteq> Completed
      \<and> getPhaseStatus (checkpoint s) (questionId q) Answer = Completed
      \<and> (\<exists>entry h. questionEntry (checkpoint s) (questionId q) = Some entry
            \<and> hypothesis (phases entry Answer) = Some h \<and> h \<noteq> []))
   \<and> (ingestPending benchmark ids (checkpoint s) = [] \<longrightarrow>
        runIngestPhase rt env provider benchmark ids s = (NothingPending, [], s))
   \<and> (indexingPending ids (checkpoint s) = [] \<longrightarrow>
        runIndexingPhase rt env provider ids s = (NothingPending, [], s))
   \<and> (searchPending benchmark ids (checkpoint s) = [] \<longrightarrow>
        runSearchPhase rt env provider benchmark ids s = (NothingPending, [], s))
   \<and> (answerPending env benchmark ids s = [] \<longrightarrow>
        runAnswerPhase rt env benchmark ids optProvider s = (NothingPending, [], s))
   \<and> (evaluatePending benchmark ids (checkpoint s) = [] \<longrightarrow>
        runEvaluatePhase rt env judge benchmark ids optProvider s = (NothingPending, [], s))"
  by (simp add: ingestPending_iff indexingPending_iff searchPending_iff answerPending_iff
      evaluatePending_iff runners_nothing_pending)

lemma questionEntry_updateQuestion:
  "questionEntry (updateQuestion qid f cp) qid' =
     (if qid' = qid then map_option f (questionEntry cp qid) else questionEntry cp qid')"
proof -
  have "map_of (map (\<lambda>(key, q). if key = qid then (key, f q) else (key, q)) xs) qid' =
     (if qid' = qid then map_option f (map_of xs qid) else map_of xs qid')" for xs
    by (induction xs) auto
  then show ?thesis by (simp add: questionEntry_def updateQuestion_def)
qed

lemma questionEntry_mergePhase:
  "questionEntry (checkpoint (mergePhase qid phase upd s)) qid' =
     (if qid' = qid
      then map_option (\<lambda>q. q\<lparr>phases := (phases q)(phase := upd (phases q phase))\<rparr>)
             (questionEntry (checkpoint s) qid)
      else questionEntry (checkpoint s) qid')"
  by (simp add: mergePhase_def questionEntry_updateQuestion)

lemma questionEntry_updatePhase:
  "questionEntry (checkpoint (updatePhase qid phase upd s)) qid' =
     (if qid' = qid
      then map_option (\<lambda>q. q\<lparr>phases := (phases q)(phase := upd (phases q phase))\<rparr>)
             (questionEntry (checkpoint s) qid)
      else questionEntry (checkpoint s) qid')"
  by (simp add: updatePhase_def save_def questionEntry_mergePhase)

lemma questionEntry_updateSessions:
  "questionEntry (checkpoint (updateSessions qid md s)) qid' =
     (if qid' = qid then map_option (\<lambda>q. q\<lparr>sessions := md\<rparr>) (questionEntry (checkpoint s) qid)
      else questionEntry (checkpoint s) qid')"
  by (simp add: updateSessions_def save_def questionEntry_updateQuestion)

lemma hasEntry_simps [simp]:
  "hasEntry (mergePhase qid phase upd s) qid' = hasEntry s qid'"
  "hasEntry (updatePhase qid phase upd s) qid' = hasEntry s qid'"
  "hasEntry (updateSessions qid md s) qid' = hasEntry s qid'"
  "hasEntry (s\<lparr>ext := x\<rparr>) qid' = hasEntry s qid'"
  by (auto simp: hasEntry_def questionEntry_mergePhase questionEntry_updatePhase
      questionEntry_updateSessions)

lemma persisted_updatePhase [simp]:
  "persisted (updatePhase qid phase upd s) = Some (checkpoint (updatePhase qid phase upd s))"
  by (simp add: updatePhase_def save_def)


lemma ingestSessions_hasEntry:
  "ingestSessions provider tag qid ses acc s = (out, s') \<Longrightarrow> hasEntry s' qid' = hasEntry s qid'"
proof (induction ses arbitrary: acc s)
  case Nil
  then show ?case by simp
next
  case (Cons se rest)
  show ?case
  proof (cases "sessionId se \<in> set (liveCompletedSessions qid s)")
    case True
    with Cons show ?thesis by simp
  next
    case False
    obtain r x where i: "ingest provider [se] tag (ext s) = (r, x)"
      by (cases "ingest provider [se] tag (ext s)")
    show ?thesis
    proof (cases r)
      case (Inl e)
      with Cons.prems False i show ?thesis by auto
    next
      case (Inr result)
      with Cons.prems False i Cons.IH show ?thesis
        by (simp add: Let_def)
    qed
  qed
qed

lemma ingestAttempt_hasEntry:
  assumes "ingestAttempt env provider q ses t s = (out, s')"
  shows "hasEntry s' qid' = hasEntry s qid'"
proof (cases "questionEntry (checkpoint s) (questionId q)")
  case None
  with assms show ?thesis by (simp add: ingestAttempt_def)
next
  case (Some entry)
  obtain r s1 where i: "ingestSessions provider (ingestContainerTag q (checkpoint s)) (questionId q)
                          ses ([], []) s = (r, s1)"
    by (cases "ingestSessions provider (ingestContainerTag q (checkpoint s)) (questionId q)
                          ses ([], []) s")
  note h = ingestSessions_hasEntry [OF i, of qid']
  show ?thesis
  proof (cases r)
    case (Inl e)
    with assms Some i have "s' = s1" by (simp add: ingestAttempt_def)
    with h show ?thesis by simp
  next
    case (Inr combined)
    with assms Some i have "hasEntry s' qid' = hasEntry s1 qid'"
      by (auto simp add: ingestAttempt_def Let_def)
    with h show ?thesis by simp
  qed
qed



lemma ingestTask_hasEntry:
  assumes "ingestTask env provider benchmark ctx s = (out, s')"
  shows "hasEntry s' qid' = hasEntry s qid'"
proof -
  let ?qid = "questionId (item ctx)"
  let ?ses = "getHaystackSessions benchmark ?qid"
  let ?s1 = "updateSessions ?qid (map (\<lambda>se. (sessionId se, sessionDate se, length (messages se))) ?ses) s"
  let ?s2 = "updatePhase ?qid Ingest
               (\<lambda>p. p\<lparr>status := InProgress, startedAt := Some (nowIso env (ext ?s1))\<rparr>) ?s1"
  obtain r s3 where a: "ingestAttempt env provider (item ctx) ?ses (nowMs env (ext ?s1)) ?s2 = (r, s3)"
    by (cases "ingestAttempt env provider (item ctx) ?ses (nowMs env (ext ?s1)) ?s2")
  from ingestAttempt_hasEntry [OF a, of qid'] have h: "hasEntry s3 qid' = hasEntry s qid'" by simp
  from assms a have "hasEntry s' qid' = hasEntry s3 qid'"
    by (cases r) (auto simp add: ingestTask_def Let_def)
  with h show ?thesis by simp
qed

lemma indexingTask_hasEntry:
  assumes "indexingTask env provider ctx s = (out, s')"
  shows "hasEntry s' qid' = hasEntry s qid'"
  using assms
  by (auto simp add: indexingTask_def Let_def split: if_splits prod.splits sum.splits)


lemma searchAttempt_hasEntry:
  assumes "searchAttempt env provider dir q tag t s = (out, s')"
  shows "hasEntry s' qid' = hasEntry s qid'"
  using assms
  by (auto simp add: searchAttempt_def Let_def split: prod.splits sum.splits)

lemma searchTask_hasEntry:
  assumes "searchTask env provider dir ctx s = (out, s')"
  shows "hasEntry s' qid' = hasEntry s qid'"
proof -
  let ?qid = "questionId (item ctx)"
  let ?s1 = "updatePhase ?qid Search
               (\<lambda>p. p\<lparr>status := InProgress, startedAt := Some (nowIso env (ext s))\<rparr>) s"
  obtain r s2 where a: "searchAttempt env provider dir (item ctx)
                          (searchContainerTag (item ctx) (checkpoint s)) (nowMs env (ext s)) ?s1 = (r, s2)"
    by (cases "searchAttempt env provider dir (item ctx)
                          (searchContainerTag (item ctx) (checkpoint s)) (nowMs env (ext s)) ?s1")
  from searchAttempt_hasEntry [OF a, of qid'] have h: "hasEntry s2 qid' = hasEntry s qid'" by simp
  from assms a have "hasEntry s' qid' = hasEntry s2 qid'"
    by (cases r) (auto simp add: searchTask_def Let_def)
  with h show ?thesis by simp
qed








subsection \<open>Invariants of the world through a run of the executor\<close>








subsection \<open>The small run, evaluated\<close>

lemmas phase_eval =
  runIngestPhase_def ingestPending_def targetQuestions_def getPhaseStatus_def questionEntry_def
  executeBatched_def batchLoop.simps runBatch_def settleAll_def completionOrder_def
  batchContexts_def slice_def totalBatchesOf_def resolveParallelism_def RATE_LIMIT_MS_def ingestTask_def ingestAttempt_def
  liveCompletedSessions_def mergeIngestResult_def ingestContainerTag_def
  updatePhase_def updateSessions_def mergePhase_def save_def updateQuestion_def failedAt_def
  demoProvider_def demoBenchmark_def demoEnvironment_def demoCheckpoint_def demoWorld_def
  emptyPhase_def quietRuntime_def ingestStateOf_def Let_def

lemma firstAttempt_outcome:
  "fst firstAttempt =
     PhaseThrew (ErrorObj ''Ingest failed at q1: backend unavailable. Fix the issue and resume with the same run ID.'')"
  by (simp add: firstAttempt_def phase_eval)


lemma firstAttempt_state:
  "ingestStateOf (snd (snd firstAttempt)) ''q1'' =
     Some (emptyPhase\<lparr>status := Failed, startedAt := Some ''now'',
             error := Some ''backend unavailable'', completedSessions := [''s1'', ''s2'']\<rparr>)
   \<and> ext (snd (snd firstAttempt)) = ([''s3''], [''s1'', ''s2''])"
  by (simp add: firstAttempt_def phase_eval)

lemma resumedAttempt_state:
  "fst resumedAttempt = PhaseComplete
   \<and> ingestStateOf (snd (snd resumedAttempt)) ''q1'' =
     Some (emptyPhase\<lparr>status := Completed, startedAt := Some ''now'', completedAt := Some ''now'',
             durationMs := Some 0,
             error := Some ''backend unavailable'', completedSessions := [''s1'', ''s2'', ''s3''],
             ingestResult := Some \<lparr>documentIds = [''doc-s3''], taskIds = None\<rparr>\<rparr>)
   \<and> ext (snd (snd resumedAttempt)) = ([], [''s1'', ''s2'', ''s3''])"
  by (simp add: resumedAttempt_def repaired_def firstAttempt_def phase_eval)

lemma asError_failedAt [simp]: "asError (failedAt what qid msg) = failedAt what qid msg"
  by (simp add: failedAt_def)










subsection \<open>The answer prompt\<close>

lemma indexOf_None: "indexOf pat s = None \<longleftrightarrow> \<not> sublist pat s"
proof (induction s)
  case Nil
  then show ?case by simp
next
  case (Cons c s)
  then show ?case by (simp add: sublist_Cons_right)
qed

lemma indexOf_Some:
  assumes "pat \<noteq> []"
  shows "indexOf pat s = Some i \<Longrightarrow>
           i + length pat \<le> length s \<and> take (length pat) (drop i s) = pat
           \<and> \<not> sublist pat (take i s @ butlast pat)"
proof (induction s arbitrary: i)
  case Nil
  with assms show ?case by simp
next
  case (Cons c s)
  have short: "\<not> sublist pat (butlast pat)"
  proof
    assume "sublist pat (butlast pat)"
    then have "length pat \<le> length (butlast pat)" by (rule sublist_length_le)
    moreover have "length (butlast pat) = length pat - 1" by (rule length_butlast)
    moreover have "0 < length pat" using assms by simp
    ultimately show False by linarith
  qed
  show ?case
  proof (cases "prefix pat (c # s)")
    case True
    with Cons.prems have i: "i = 0" by simp
    from True obtain r where r: "c # s = pat @ r" by (auto simp: prefix_def)
    have "length pat \<le> length (c # s)" unfolding r by simp
    moreover have "take (length pat) (c # s) = pat" unfolding r by simp
    ultimately show ?thesis using i short by simp
  next
    case False
    with Cons.prems obtain j where j: "indexOf pat s = Some j" "i = Suc j" by auto
    note ih = Cons.IH [OF j(1)]
    from ih have tk: "take (length pat) (drop j s) = pat" by simp
    have "butlast pat = take (length pat - 1) (drop j s)"
    proof -
      have "butlast pat = butlast (take (length pat) (drop j s))" using tk by simp
      also have "\<dots> = take (length pat - 1) (drop j s)"
      proof (rule butlast_take)
        from ih have "j + length pat \<le> length s" by simp
        then show "length pat \<le> length (drop j s)" by simp
      qed
      finally show ?thesis .
    qed
    then have pre: "take j s @ butlast pat = take (j + (length pat - 1)) s"
      by (simp add: take_add)
    have "\<not> prefix pat (c # take j s @ butlast pat)"
    proof
      assume "prefix pat (c # take j s @ butlast pat)"
      moreover have "prefix (c # take j s @ butlast pat) (c # s)"
        unfolding pre by (simp add: take_is_prefix)
      ultimately have "prefix pat (c # s)" by (rule prefix_order.trans)
      with False show False ..
    qed
    with ih have "\<not> sublist pat (c # take j s @ butlast pat)"
      by (simp add: sublist_Cons_right)
    with ih j show ?thesis by simp
  qed
qed

lemma getSubstitution_plain:
  "CHR ''$'' \<notin> set rep \<Longrightarrow> getSubstitution matched preceding following rep = rep"
  by (induction matched preceding following rep rule: getSubstitution.induct) auto

lemma replace_first_only:
  assumes "pat \<noteq> []"
  shows "\<exists>ins. replacesFirstOccurrenceOnly pat ins str (replace str pat rep)
           \<and> (CHR ''$'' \<notin> set rep \<longrightarrow> ins = rep)"
proof (cases "indexOf pat str")
  case None
  then have "\<not> sublist pat str" by (simp add: indexOf_None)
  with None have "replacesFirstOccurrenceOnly pat rep str (replace str pat rep)"
    by (simp add: replacesFirstOccurrenceOnly_def replace_def)
  then show ?thesis by blast
next
  case (Some i)
  note io = indexOf_Some [OF assms Some]
  let ?pre = "take i str"
  let ?post = "drop (i + length pat) str"
  let ?ins = "getSubstitution pat ?pre ?post rep"
  have "take (length pat) (drop i str) @ drop (length pat) (drop i str) = drop i str"
    by (rule append_take_drop_id)
  moreover have "drop (length pat) (drop i str) = ?post"
    by (simp add: add.commute)
  ultimately have "pat @ ?post = drop i str" using io by simp
  moreover have "?pre @ drop i str = str" by (rule append_take_drop_id)
  ultimately have dec: "str = ?pre @ pat @ ?post" by simp
  then have sub: "sublist pat str" by (metis sublist_appendI)
  have out: "replace str pat rep = ?pre @ ?ins @ ?post"
    using Some by (simp add: replace_def)
  have "\<exists>pre post. str = pre @ pat @ post \<and> \<not> sublist pat (pre @ butlast pat)
          \<and> replace str pat rep = pre @ ?ins @ post"
    using dec io out by blast
  with sub have "replacesFirstOccurrenceOnly pat ?ins str (replace str pat rep)"
    by (simp add: replacesFirstOccurrenceOnly_def)
  moreover have "CHR ''$'' \<notin> set rep \<longrightarrow> ?ins = rep"
    by (simp add: getSubstitution_plain)
  ultimately show ?thesis by blast
qed

lemma occurrences_append_ge:
  assumes "p \<noteq> []"
  shows "occurrences p a + occurrences p b \<le> occurrences p (a @ b)"
proof (induction a)
  case Nil
  with assms show ?case by simp
next
  case (Cons c a)
  have "prefix p (c # a) \<Longrightarrow> prefix p (c # a @ b)"
    by (metis append_Cons prefix_prefix)
  with Cons show ?case by auto
qed

text \<open>No occurrence starts inside a stretch all of whose ends are incomparable with it.\<close>

lemma occurrences_skip:
  assumes "\<forall>u \<in> set (suffixes x). u = [] \<or> (\<not> prefix u p \<and> \<not> prefix p u)"
  shows "occurrences p (x @ rest) = occurrences p rest"
  using assms
proof (induction x)
  case Nil
  then show ?case by simp
next
  case (Cons c x)
  from Cons.prems have inc: "\<not> prefix (c # x) p" "\<not> prefix p (c # x)" by auto
  have "\<not> prefix p (c # x @ rest)"
  proof
    assume "prefix p (c # x @ rest)"
    then have "prefix p ((c # x) @ rest)" by simp
    then have "prefix p (c # x) \<or> prefix (c # x) p"
      by (metis prefix_append prefix_def)
    with inc show False by blast
  qed
  moreover from Cons.prems have "\<forall>u \<in> set (suffixes x). u = [] \<or> (\<not> prefix u p \<and> \<not> prefix p u)"
    by auto
  ultimately show ?case using Cons.IH by simp
qed


lemma prefix_of_append_cases:
  assumes "prefix p (a @ b)"
  shows "prefix p a \<or> (\<exists>us. us \<noteq> [] \<and> p = a @ us \<and> prefix us b)"
proof -
  from assms have "prefix p a \<or> (\<exists>us. p = a @ us \<and> prefix us b)"
    by (simp add: prefix_append)
  then show ?thesis
  proof
    assume "prefix p a" then show ?thesis ..
  next
    assume "\<exists>us. p = a @ us \<and> prefix us b"
    then obtain us where us: "p = a @ us" "prefix us b" by blast
    show ?thesis
    proof (cases "us = []")
      case True
      with us have "prefix p a" by simp
      then show ?thesis ..
    next
      case False
      with us show ?thesis by blast
    qed
  qed
qed

lemma occurrences_around_other:
  assumes ap: "apart p b" and ne: "p \<noteq> []"
  shows "occurrences p (pre @ b @ post) = occurrences p pre + occurrences p post"
proof (induction pre)
  case Nil
  from ap have "\<forall>u \<in> set (suffixes b). u = [] \<or> (\<not> prefix u p \<and> \<not> prefix p u)"
    by (simp add: apart_def list_all_iff)
  from occurrences_skip [OF this, of post] ne show ?case by simp
next
  case (Cons c pre)
  have "prefix p (c # pre @ b @ post) \<longleftrightarrow> prefix p (c # pre)"
  proof
    assume "prefix p (c # pre)"
    then show "prefix p (c # pre @ b @ post)" by (metis append_Cons prefix_prefix)
  next
    assume "prefix p (c # pre @ b @ post)"
    then have "prefix p ((c # pre) @ (b @ post))" by simp
    from prefix_of_append_cases [OF this]
    show "prefix p (c # pre)"
    proof
      assume "prefix p (c # pre)" then show ?thesis .
    next
      assume "\<exists>us. us \<noteq> [] \<and> p = (c # pre) @ us \<and> prefix us (b @ post)"
      then obtain us where us: "us \<noteq> []" "p = (c # pre) @ us" "prefix us (b @ post)" by blast
      from us(2) have "suffix us p" by (simp add: suffix_def)
      then have "us \<in> set (suffixes p)" by (simp add: in_set_suffixes)
      with ap us(1) have inc: "\<not> prefix us b" "\<not> prefix b us"
        by (auto simp: apart_def list_all_iff)
      from us(3) have "prefix us b \<or> prefix b us"
        by (metis prefix_append prefix_def)
      with inc show ?thesis by blast
    qed
  qed
  with Cons.IH show ?case by simp
qed

lemma occurrences_first:
  assumes ub: "unbordered p" and ne: "p \<noteq> []"
  shows "\<not> sublist p (pre @ butlast p) \<Longrightarrow>
           occurrences p (pre @ p @ post) = Suc (occurrences p post)"
proof (induction pre)
  case Nil
  from ne obtain c p' where p: "p = c # p'" by (cases p) auto
  have "\<forall>u \<in> set (suffixes p'). u = [] \<or> (\<not> prefix u p \<and> \<not> prefix p u)"
  proof
    fix u assume u: "u \<in> set (suffixes p')"
    then have su: "suffix u p'" by (simp add: in_set_suffixes)
    then have len: "length u \<le> length p'" by (rule suffix_length_le)
    from su have "suffix u p" unfolding p by (rule suffix_ConsI)
    then have "u \<in> set (suffixes p)" by (simp add: in_set_suffixes)
    with ub have "u = [] \<or> u = p \<or> \<not> prefix u p"
      by (auto simp: unbordered_def list_all_iff)
    moreover have "u \<noteq> p" using len p by auto
    moreover have "\<not> prefix p u"
    proof
      assume "prefix p u"
      then have "length p \<le> length u" by (rule prefix_length_le)
      with len p show False by simp
    qed
    ultimately show "u = [] \<or> (\<not> prefix u p \<and> \<not> prefix p u)" by blast
  qed
  from occurrences_skip [OF this, of post]
  have "occurrences p (p' @ post) = occurrences p post" .
  then show ?case unfolding p by simp
next
  case (Cons c pre)
  let ?X = "c # pre @ butlast p"
  have "\<not> prefix p (c # pre @ p @ post)"
  proof
    assume a: "prefix p (c # pre @ p @ post)"
    have "prefix ?X (c # pre @ p @ post)"
    proof -
      have "prefix (butlast p) p" by (rule prefixeq_butlast)
      then have "prefix (butlast p) (p @ post)" by (rule prefix_prefix)
      then show ?thesis by simp
    qed
    with a have "prefix p ?X \<or> prefix ?X p" by (rule prefix_same_cases)
    then have "prefix p ?X"
    proof
      assume "prefix p ?X" then show ?thesis .
    next
      assume x: "prefix ?X p"
      then have "length ?X \<le> length p" by (rule prefix_length_le)
      moreover have "length ?X = Suc (length pre) + (length p - 1)" by simp
      moreover have "0 < length p" using ne by simp
      ultimately have "length ?X = length p" by linarith
      with x have "?X = p" by (metis prefix_order.eq_iff prefix_length_prefix order_refl)
      then show ?thesis by simp
    qed
    then have "sublist p ?X" by (rule prefix_imp_sublist)
    with Cons.prems show False by simp
  qed
  moreover from Cons.prems have "\<not> sublist p (pre @ butlast p)"
    by (simp add: sublist_Cons_right)
  ultimately show ?case using Cons.IH by simp
qed

lemma placeholders_apart:
  "apart ''{{question}}'' ''{{questionDate}}''"
  "apart ''{{question}}'' ''{{context}}''"
  "apart ''{{questionDate}}'' ''{{question}}''"
  "apart ''{{questionDate}}'' ''{{context}}''"
  "apart ''{{context}}'' ''{{question}}''"
  "apart ''{{context}}'' ''{{questionDate}}''"
  "unbordered ''{{question}}''"
  "unbordered ''{{questionDate}}''"
  "unbordered ''{{context}}''"
  by (simp_all add: apart_def unbordered_def)


lemma replace_cases:
  assumes "pat \<noteq> []"
  shows "replace str pat rep = str
     \<or> (\<exists>pre ins post. str = pre @ pat @ post \<and> \<not> sublist pat (pre @ butlast pat)
            \<and> replace str pat rep = pre @ ins @ post)"
proof (cases "indexOf pat str")
  case None
  then show ?thesis by (simp add: replace_def)
next
  case (Some i)
  note io = indexOf_Some [OF assms Some]
  let ?pre = "take i str"
  let ?post = "drop (i + length pat) str"
  have "take (length pat) (drop i str) @ drop (length pat) (drop i str) = drop i str"
    by (rule append_take_drop_id)
  moreover have "drop (length pat) (drop i str) = ?post"
    by (simp add: add.commute)
  ultimately have "pat @ ?post = drop i str" using io by simp
  moreover have "?pre @ drop i str = str" by (rule append_take_drop_id)
  ultimately have dec: "str = ?pre @ pat @ ?post" by simp
  have "replace str pat rep = ?pre @ getSubstitution pat ?pre ?post rep @ ?post"
    using Some by (simp add: replace_def)
  with dec io show ?thesis by blast
qed

lemma replace_keeps_other:
  assumes "apart p b" and "p \<noteq> []" and "b \<noteq> []"
  shows "occurrences p str \<le> occurrences p (replace str b rep)"
proof -
  from replace_cases [OF assms(3), of str rep]
  show ?thesis
  proof
    assume "replace str b rep = str"
    then show ?thesis by simp
  next
    assume "\<exists>pre ins post. str = pre @ b @ post \<and> \<not> sublist b (pre @ butlast b)
              \<and> replace str b rep = pre @ ins @ post"
    then obtain pre ins post where d: "str = pre @ b @ post"
      "replace str b rep = pre @ ins @ post" by blast
    have "occurrences p str = occurrences p pre + occurrences p post"
      unfolding d(1) by (rule occurrences_around_other [OF assms(1,2)])
    also have "\<dots> \<le> occurrences p pre + (occurrences p ins + occurrences p post)" by simp
    also have "\<dots> \<le> occurrences p pre + occurrences p (ins @ post)"
      using occurrences_append_ge [OF assms(2), of ins post] by simp
    also have "\<dots> \<le> occurrences p (pre @ ins @ post)"
      by (rule occurrences_append_ge [OF assms(2)])
    finally show ?thesis unfolding d(2) .
  qed
qed

lemma replace_consumes_one:
  assumes "unbordered p" and "p \<noteq> []"
  shows "occurrences p str \<le> Suc (occurrences p (replace str p rep))"
proof -
  from replace_cases [OF assms(2), of str rep]
  show ?thesis
  proof
    assume "replace str p rep = str"
    then show ?thesis by simp
  next
    assume "\<exists>pre ins post. str = pre @ p @ post \<and> \<not> sublist p (pre @ butlast p)
              \<and> replace str p rep = pre @ ins @ post"
    then obtain pre ins post where d: "str = pre @ p @ post" "\<not> sublist p (pre @ butlast p)"
      "replace str p rep = pre @ ins @ post" by blast
    have "occurrences p str = Suc (occurrences p post)"
      unfolding d(1) by (rule occurrences_first [OF assms d(2)])
    also have "\<dots> \<le> Suc (occurrences p ins + occurrences p post)" by simp
    also have "\<dots> \<le> Suc (occurrences p (ins @ post))"
      using occurrences_append_ge [OF assms(2), of ins post] by simp
    also have "\<dots> \<le> Suc (occurrences p pre + occurrences p (ins @ post))" by simp
    also have "\<dots> \<le> Suc (occurrences p (pre @ ins @ post))"
      using occurrences_append_ge [OF assms(2), of pre "ins @ post"] by simp
    finally show ?thesis unfolding d(3) .
  qed
qed

lemma template_later_occurrences:
  "occurrences ''{{question}}'' template
     \<le> Suc (occurrences ''{{question}}''
            (replace (replace (replace template ''{{question}}'' q) ''{{questionDate}}'' d)
               ''{{context}}'' c))
   \<and> occurrences ''{{questionDate}}'' template
     \<le> Suc (occurrences ''{{questionDate}}''
            (replace (replace (replace template ''{{question}}'' q) ''{{questionDate}}'' d)
               ''{{context}}'' c))
   \<and> occurrences ''{{context}}'' template
     \<le> Suc (occurrences ''{{context}}''
            (replace (replace (replace template ''{{question}}'' q) ''{{questionDate}}'' d)
               ''{{context}}'' c))"
proof -
  let ?s1 = "replace template ''{{question}}'' q"
  let ?s2 = "replace ?s1 ''{{questionDate}}'' d"
  let ?out = "replace ?s2 ''{{context}}'' c"
  note ap = placeholders_apart
  have "occurrences ''{{question}}'' template \<le> Suc (occurrences ''{{question}}'' ?s1)"
    by (rule replace_consumes_one [OF ap(7)]) simp
  also have "occurrences ''{{question}}'' ?s1 \<le> occurrences ''{{question}}'' ?s2"
    by (rule replace_keeps_other [OF ap(1)]) simp_all
  also have "occurrences ''{{question}}'' ?s2 \<le> occurrences ''{{question}}'' ?out"
    by (rule replace_keeps_other [OF ap(2)]) simp_all
  finally have 1: "occurrences ''{{question}}'' template \<le> Suc (occurrences ''{{question}}'' ?out)"
    by simp
  have "occurrences ''{{questionDate}}'' template \<le> occurrences ''{{questionDate}}'' ?s1"
    by (rule replace_keeps_other [OF ap(3)]) simp_all
  also have "occurrences ''{{questionDate}}'' ?s1 \<le> Suc (occurrences ''{{questionDate}}'' ?s2)"
    by (rule replace_consumes_one [OF ap(8)]) simp
  also have "occurrences ''{{questionDate}}'' ?s2 \<le> occurrences ''{{questionDate}}'' ?out"
    by (rule replace_keeps_other [OF ap(4)]) simp_all
  finally have 2: "occurrences ''{{questionDate}}'' template
                     \<le> Suc (occurrences ''{{questionDate}}'' ?out)"
    by simp
  have "occurrences ''{{context}}'' template \<le> occurrences ''{{context}}'' ?s1"
    by (rule replace_keeps_other [OF ap(5)]) simp_all
  also have "occurrences ''{{context}}'' ?s1 \<le> occurrences ''{{context}}'' ?s2"
    by (rule replace_keeps_other [OF ap(6)]) simp_all
  also have "occurrences ''{{context}}'' ?s2 \<le> Suc (occurrences ''{{context}}'' ?out)"
    by (rule replace_consumes_one [OF ap(9)]) simp
  finally have 3: "occurrences ''{{context}}'' template \<le> Suc (occurrences ''{{context}}'' ?out)"
    by simp
  from 1 2 3 show ?thesis by blast
qed


lemma dateOrDefault_plain:
  "dateOrDefault None = ''Not specified''"
  "d \<noteq> [] \<Longrightarrow> dateOrDefault (Some d) = d"
  "dateOrDefault (Some []) = ''Not specified''"
  by (simp_all add: dateOrDefault_def)

text \<open>
  C10: when the provider supplies a (non-empty) string template, the prompt is the result of
  three successive replacements, of \<^verbatim>\<open>{{question}}\<close>, \<^verbatim>\<open>{{questionDate}}\<close> and
  \<^verbatim>\<open>{{context}}\<close>, each of which replaces the first occurrence of its placeholder in the
  string it is applied to and leaves everything else, later occurrences included, as it is.
  The text put in is the question, the date and the rendered context whenever these hold no
  dollar sign; for an absent date it is \<^verbatim>\<open>Not specified\<close>. Of each placeholder at most
  one occurrence of the template is used up: all the others are still in the prompt.
\<close>

theorem buildAnswerPrompt_template:
  assumes "provider = Some p" and "prompts p = Some pp"
    and "answerPrompt pp = Some (PromptTemplate template)" and "template \<noteq> []"
  shows "(\<exists>s1 s2 ins1 ins2 ins3.
      replacesFirstOccurrenceOnly ''{{question}}'' ins1 template s1
    \<and> replacesFirstOccurrenceOnly ''{{questionDate}}'' ins2 s1 s2
    \<and> replacesFirstOccurrenceOnly ''{{context}}'' ins3 s2
          (buildAnswerPrompt env q context qDate provider)
    \<and> (CHR ''$'' \<notin> set q \<longrightarrow> ins1 = q)
    \<and> (qDate = None \<longrightarrow> ins2 = ''Not specified'')
    \<and> (\<forall>d. qDate = Some d \<and> d \<noteq> [] \<and> CHR ''$'' \<notin> set d \<longrightarrow> ins2 = d)
    \<and> (CHR ''$'' \<notin> set (buildContextString env context) \<longrightarrow> ins3 = buildContextString env context))
   \<and> occurrences ''{{question}}'' template
        \<le> Suc (occurrences ''{{question}}'' (buildAnswerPrompt env q context qDate provider))
   \<and> occurrences ''{{questionDate}}'' template
        \<le> Suc (occurrences ''{{questionDate}}'' (buildAnswerPrompt env q context qDate provider))
   \<and> occurrences ''{{context}}'' template
        \<le> Suc (occurrences ''{{context}}'' (buildAnswerPrompt env q context qDate provider))"
proof -
  let ?s1 = "replace template ''{{question}}'' q"
  let ?s2 = "replace ?s1 ''{{questionDate}}'' (dateOrDefault qDate)"
  let ?s3 = "replace ?s2 ''{{context}}'' (buildContextString env context)"
  from assms have b: "buildAnswerPrompt env q context qDate provider = ?s3"
    by (simp add: buildAnswerPrompt_def customAnswerPrompt_def)
  obtain ins1 where 1: "replacesFirstOccurrenceOnly ''{{question}}'' ins1 template ?s1"
    "CHR ''$'' \<notin> set q \<longrightarrow> ins1 = q"
    using replace_first_only [of "''{{question}}''" template q] by auto
  obtain ins2 where 2: "replacesFirstOccurrenceOnly ''{{questionDate}}'' ins2 ?s1 ?s2"
    "CHR ''$'' \<notin> set (dateOrDefault qDate) \<longrightarrow> ins2 = dateOrDefault qDate"
    using replace_first_only [of "''{{questionDate}}''" ?s1 "dateOrDefault qDate"] by auto
  obtain ins3 where 3: "replacesFirstOccurrenceOnly ''{{context}}'' ins3 ?s2 ?s3"
    "CHR ''$'' \<notin> set (buildContextString env context) \<longrightarrow> ins3 = buildContextString env context"
    using replace_first_only [of "''{{context}}''" ?s2 "buildContextString env context"] by auto
  have d1: "qDate = None \<longrightarrow> ins2 = ''Not specified''"
    using 2(2) by (simp add: dateOrDefault_def)
  have d2: "\<forall>d. qDate = Some d \<and> d \<noteq> [] \<and> CHR ''$'' \<notin> set d \<longrightarrow> ins2 = d"
    using 2(2) by (auto simp: dateOrDefault_def)
  from 1 2(1) 3 d1 d2 have stages: "\<exists>s1 s2 ins1 ins2 ins3.
      replacesFirstOccurrenceOnly ''{{question}}'' ins1 template s1
    \<and> replacesFirstOccurrenceOnly ''{{questionDate}}'' ins2 s1 s2
    \<and> replacesFirstOccurrenceOnly ''{{context}}'' ins3 s2 ?s3
    \<and> (CHR ''$'' \<notin> set q \<longrightarrow> ins1 = q)
    \<and> (qDate = None \<longrightarrow> ins2 = ''Not specified'')
    \<and> (\<forall>d. qDate = Some d \<and> d \<noteq> [] \<and> CHR ''$'' \<notin> set d \<longrightarrow> ins2 = d)
    \<and> (CHR ''$'' \<notin> set (buildContextString env context) \<longrightarrow> ins3 = buildContextString env context)"
    by blast
  from stages
    template_later_occurrences [of template q "dateOrDefault qDate" "buildContextString env context"]
  show ?thesis unfolding b by blast
qed

lemma demo_prompt:
  "buildAnswerPrompt demoEnvironment ''Where?'' [''ctx''] None (Some demoProvider)
     = ''Where? / {{question}} / Not specified / ctx {{context}}''"
  by (simp add: buildAnswerPrompt_def customAnswerPrompt_def demoProvider_def demoEnvironment_def
      replace_def dateOrDefault_def)

text \<open>
  C3 (the code at the failing input): one question with the sessions s1, s2, s3; the backend
  rejects s3 during the first attempt and is repaired before the resume. The first attempt
  ingests s1 and s2, records them as completed and fails without storing a result. The
  resumed attempt calls the provider for s3 only and completes; the result it stores holds
  the document of s3 alone: the documents returned for s1 and s2 are lost.
\<close>

theorem ingest_resume_drops_documents:
  "fst firstAttempt =
     PhaseThrew (failedAt ''Ingest'' ''q1'' ''backend unavailable'')
   \<and> map_option completedSessions (ingestStateOf (snd (snd firstAttempt)) ''q1'')
       = Some [''s1'', ''s2'']
   \<and> map_option ingestResult (ingestStateOf (snd (snd firstAttempt)) ''q1'') = Some None
   \<and> snd (ext (snd (snd firstAttempt))) = [''s1'', ''s2'']
   \<and> fst resumedAttempt = PhaseComplete
   \<and> snd (ext (snd (snd resumedAttempt))) = [''s1'', ''s2'', ''s3'']
   \<and> map_option completedSessions (ingestStateOf (snd (snd resumedAttempt)) ''q1'')
       = Some [''s1'', ''s2'', ''s3'']
   \<and> map_option ingestResult (ingestStateOf (snd (snd resumedAttempt)) ''q1'')
       = Some (Some \<lparr>documentIds = [''doc-s3''], taskIds = None\<rparr>)"
  using firstAttempt_outcome firstAttempt_state resumedAttempt_state
  by (simp add: failedAt_def emptyPhase_def)


subsection \<open>The properties at the small run\<close>

theorem containerTag_pure_witness:
  "questionId (demoQuestion\<lparr>question := ''When?''\<rparr>) = questionId demoQuestion
   \<and> dataSourceRunId (demoCheckpoint\<lparr>cpRunId := ''resumed''\<rparr>) = dataSourceRunId demoCheckpoint
   \<and> ingestContainerTag (demoQuestion\<lparr>question := ''When?''\<rparr>) (demoCheckpoint\<lparr>cpRunId := ''resumed''\<rparr>)
       = ''q1-ds''
   \<and> searchContainerTag demoQuestion demoCheckpoint = ''q1-ds''"
  using containerTag_pure [of demoQuestion demoCheckpoint "demoQuestion\<lparr>question := ''When?''\<rparr>"
      "demoCheckpoint\<lparr>cpRunId := ''resumed''\<rparr>"]
  by (simp add: demoQuestion_def demoCheckpoint_def ingestContainerTag_def searchContainerTag_def)

lemma demo_ingest_completed:
  "ingestPending demoBenchmark None (checkpoint (snd (snd resumedAttempt))) = []"
  by (simp add: resumedAttempt_def repaired_def firstAttempt_def phase_eval)

lemma demo_nothing_else_pending:
  "indexingPending None (checkpoint (demoWorld [])) = []"
  "searchPending demoBenchmark None (checkpoint (demoWorld [])) = []"
  "answerPending demoEnvironment demoBenchmark None (demoWorld []) = []"
  "evaluatePending demoBenchmark None (checkpoint (demoWorld [])) = []"
  by (simp_all add: indexingPending_def indexingTargets_def searchPending_def answerPending_def
      evaluatePending_def targetQuestions_def getPhaseStatus_def questionEntry_def
      demoBenchmark_def demoWorld_def demoCheckpoint_def emptyPhase_def)

theorem working_sets_witness:
  "ingestPending demoBenchmark None (checkpoint (snd (snd resumedAttempt))) = []
   \<and> runIngestPhase quietRuntime demoEnvironment demoProvider demoBenchmark None
         (snd (snd resumedAttempt)) = (NothingPending, [], snd (snd resumedAttempt))
   \<and> indexingPending None (checkpoint (demoWorld [])) = []
   \<and> searchPending demoBenchmark None (checkpoint (demoWorld [])) = []
   \<and> answerPending demoEnvironment demoBenchmark None (demoWorld []) = []
   \<and> evaluatePending demoBenchmark None (checkpoint (demoWorld [])) = []
   \<and> runSearchPhase quietRuntime demoEnvironment demoProvider demoBenchmark None (demoWorld [])
       = (NothingPending, [], demoWorld [])
   \<and> demoQuestion \<in> set (ingestPending demoBenchmark None (checkpoint (demoWorld [])))"
proof -
  note a = working_sets [of demoQuestion demoBenchmark None "snd (snd resumedAttempt)" _
      demoEnvironment quietRuntime demoProvider]
  note b = working_sets [of demoQuestion demoBenchmark None "demoWorld []" _
      demoEnvironment quietRuntime demoProvider]
  have t: "demoQuestion \<in> set (targetQuestions None (getQuestions demoBenchmark))"
    by (simp add: targetQuestions_def demoBenchmark_def demoQuestion_def)
  have p: "getPhaseStatus (checkpoint (demoWorld [])) (questionId demoQuestion) Ingest \<noteq> Completed"
    by (simp add: getPhaseStatus_def questionEntry_def demoWorld_def demoCheckpoint_def
        demoQuestion_def emptyPhase_def)
  from a b t p demo_ingest_completed demo_nothing_else_pending show ?thesis by simp
qed






lemma demo_occurrences:
  "occurrences ''{{question}}''
     ''{{question}} / {{question}} / {{questionDate}} / {{context}} {{context}}'' = 2"
  "occurrences ''{{question}}'' ''Where? / {{question}} / Not specified / ctx {{context}}'' = 1"
  by simp_all

theorem buildAnswerPrompt_template_witness:
  "prompts demoProvider = Some \<lparr>answerPrompt = Some (PromptTemplate
       ''{{question}} / {{question}} / {{questionDate}} / {{context}} {{context}}'')\<rparr>
   \<and> buildAnswerPrompt demoEnvironment ''Where?'' [''ctx''] None (Some demoProvider)
       = ''Where? / {{question}} / Not specified / ctx {{context}}''
   \<and> (\<exists>s1 s2 ins1 ins2 ins3.
        replacesFirstOccurrenceOnly ''{{question}}'' ins1
          ''{{question}} / {{question}} / {{questionDate}} / {{context}} {{context}}'' s1
        \<and> replacesFirstOccurrenceOnly ''{{questionDate}}'' ins2 s1 s2
        \<and> replacesFirstOccurrenceOnly ''{{context}}'' ins3 s2
             ''Where? / {{question}} / Not specified / ctx {{context}}''
        \<and> ins1 = ''Where?'' \<and> ins2 = ''Not specified'' \<and> ins3 = ''ctx'')
   \<and> occurrences ''{{question}}''
        ''{{question}} / {{question}} / {{questionDate}} / {{context}} {{context}}''
       \<le> Suc (occurrences ''{{question}}''
               ''Where? / {{question}} / Not specified / ctx {{context}}'')"
proof -
  let ?t = "''{{question}} / {{question}} / {{questionDate}} / {{context}} {{context}}''"
  let ?pp = "\<lparr>answerPrompt = Some (PromptTemplate ?t)\<rparr>"
  have p: "prompts demoProvider = Some ?pp" by (simp add: demoProvider_def)
  have a: "answerPrompt ?pp = Some (PromptTemplate ?t)" by simp
  have n: "?t \<noteq> []" by simp
  have c: "buildContextString demoEnvironment [''ctx''] = ''ctx''"
    by (simp add: demoEnvironment_def)
  from buildAnswerPrompt_template [OF refl p a n, of demoEnvironment "''Where?''" "[''ctx'']" None]
  show ?thesis unfolding demo_prompt c using p by auto
qed

end
